theory Spec2Isabelle
  imports Complex_Main
begin

section \<open>Common conventions\<close>

text \<open>
  The embedding follows \<^verbatim>\<open>src/hardware.cpp\<close> and \<^verbatim>\<open>src/tiles.cpp\<close>.

  \<^item> \<^verbatim>\<open>int32_t\<close> location, petal and tile ids are modelled as \<^typ>\<open>int\<close>: the code stores
    and compares them.  The two sums it takes of them, \<^verbatim>\<open>maxpetal + 1\<close> and \<^verbatim>\<open>7 + pt\<close>, are
    additions of \<^verbatim>\<open>int32_t\<close>: a sum outside the range of \<^verbatim>\<open>int32_t\<close> is undefined behaviour
    in C++; the model makes it the error value \<open>Int_overflow\<close>.
  \<^item> \<^verbatim>\<open>double\<close> is modelled as \<^typ>\<open>real\<close>: every statement below is about the exact
    arithmetic reading of the code, not about rounding.
  \<^item> The size of a vector is a \<^typ>\<open>nat\<close>; it is taken to fit the integer variable that
    receives it (\<^verbatim>\<open>nloc\<close>, the loop counters).
  \<^item> \<^verbatim>\<open>std::map\<close> is a partial function; \<^verbatim>\<open>m.at(k)\<close> on a missing key throws
    \<^verbatim>\<open>std::out_of_range\<close>, which is the error value \<open>Out_of_range\<close>.
  \<^item> \<^verbatim>\<open>v[i]\<close> on a \<^verbatim>\<open>std::vector\<close> with \<open>i\<close> past the end is undefined behaviour in C++;
    the model makes it the error value \<open>Bad_index\<close>.
\<close>

datatype error = Out_of_range | Bad_index | Int_overflow

definition map_at :: "('k \<rightharpoonup> 'v) \<Rightarrow> 'k \<Rightarrow> error + 'v" where
  "map_at m k = (case m k of None \<Rightarrow> Inl Out_of_range | Some v \<Rightarrow> Inr v)"

definition vec_at :: "'a list \<Rightarrow> nat \<Rightarrow> error + 'a" where
  "vec_at v i = (if i < length v then Inr (v ! i) else Inl Bad_index)"

text \<open>Addition of two \<^verbatim>\<open>int32_t\<close> values.\<close>

definition int32_add :: "int \<Rightarrow> int \<Rightarrow> error + int" where
  "int32_add a b =
     (if - 2147483648 \<le> a + b \<and> a + b \<le> 2147483647 then Inr (a + b) else Inl Int_overflow)"

text \<open>Sequencing of calls that may throw: the first exception is the result.\<close>

definition ebind :: "error + 'a \<Rightarrow> ('a \<Rightarrow> error + 'b) \<Rightarrow> error + 'b" where
  "ebind m f = (case m of Inl e \<Rightarrow> Inl e | Inr v \<Rightarrow> f v)"

text \<open>A loop over the elements of a list whose body may throw.\<close>

fun efold :: "('a \<Rightarrow> 's \<Rightarrow> error + 's) \<Rightarrow> 'a list \<Rightarrow> 's \<Rightarrow> error + 's" where
  "efold body [] s = Inr s"
| "efold body (x # xs) s = ebind (body x s) (efold body xs)"

text \<open>\<^verbatim>\<open>v.resize(n)\<close> on a vector whose new cells are value-initialised to \<open>d\<close>.\<close>

definition resize_vec :: "nat \<Rightarrow> 'a \<Rightarrow> 'a list \<Rightarrow> 'a list" where
  "resize_vec n d v = take n v @ replicate (n - length v) d"

subsection \<open>OpenMP loops\<close>

text \<open>
  The \<^verbatim>\<open>_multi\<close> functions and \<^verbatim>\<open>check_collisions_*\<close> run their main loop under
  \<^verbatim>\<open>#pragma omp parallel for schedule(static) ... num_threads(run_threads)\<close>.  Every
  iteration of these loops reads shared data that no iteration writes and writes cells of the
  result vector (in \<^verbatim>\<open>check_collisions_*\<close> inside \<^verbatim>\<open>#pragma omp critical\<close>), so a parallel run
  is the run of the iterations one after the other in some order.  That order is not fixed by
  the code: it is a parameter, \<open>omp_order rt run_threads n\<close>, the order in which the runtime
  \<open>rt\<close> executes the \<open>n\<close> iterations on \<open>run_threads\<close> threads.  \<open>omp_get_num_threads rt\<close>
  is what \<^verbatim>\<open>omp_get_num_threads()\<close> returns (in a build without OpenMP the code uses \<open>1\<close>).
\<close>

record omp_runtime =
  omp_get_num_threads :: int
  omp_order :: "int \<Rightarrow> nat \<Rightarrow> nat list"

text \<open>Each of the \<open>n\<close> iterations is executed exactly once.\<close>

definition omp_runs_each_once :: "omp_runtime \<Rightarrow> bool" where
  "omp_runs_each_once rt \<longleftrightarrow>
     (\<forall>k n. distinct (omp_order rt k n) \<and> set (omp_order rt k n) = {0..<n})"

text \<open>The computation of \<^verbatim>\<open>run_threads\<close> from the \<^verbatim>\<open>threads\<close> argument.\<close>

definition run_threads_of :: "omp_runtime \<Rightarrow> int \<Rightarrow> int" where
  "run_threads_of rt threads =
     (let max_threads = omp_get_num_threads rt;
          run_threads = (if threads > 0 then threads else max_threads)
      in if run_threads > max_threads then max_threads else run_threads)"

definition omp_for :: "omp_runtime \<Rightarrow> int \<Rightarrow> nat \<Rightarrow> (nat \<Rightarrow> 's \<Rightarrow> error + 's) \<Rightarrow> 's \<Rightarrow> error + 's" where
  "omp_for rt run_threads n body s = efold body (omp_order rt run_threads n) s"

section \<open>Library functions of C used by the code\<close>

text \<open>
  \<^verbatim>\<open>atan2\<close>, \<^verbatim>\<open>fmod\<close> and \<^verbatim>\<open>std::numeric_limits<float>::epsilon()\<close> belong to the C and
  C++ libraries; they are written out over the reals.  \<^verbatim>\<open>acos\<close>, \<^verbatim>\<open>asin\<close>,
  \<^verbatim>\<open>sqrt\<close>, \<^verbatim>\<open>sin\<close> and \<^verbatim>\<open>cos\<close> are \<^const>\<open>arccos\<close>, \<^const>\<open>arcsin\<close>,
  \<^const>\<open>sqrt\<close>, \<^const>\<open>sin\<close> and \<^const>\<open>cos\<close>.
\<close>

definition atan2 :: "real \<Rightarrow> real \<Rightarrow> real" where
  "atan2 y x =
     (if 0 < x then arctan (y / x)
      else if x < 0 then (if 0 \<le> y then arctan (y / x) + pi else arctan (y / x) - pi)
      else if 0 < y then pi / 2
      else if y < 0 then - (pi / 2)
      else 0)"

definition trunc :: "real \<Rightarrow> int" where
  "trunc q = (if 0 \<le> q then \<lfloor>q\<rfloor> else \<lceil>q\<rceil>)"

text \<open>
  \<^verbatim>\<open>abs\<close> in the global namespace is the C function \<^verbatim>\<open>int abs(int)\<close>: \<^verbatim>\<open>hardware.cpp\<close>
  includes \<^verbatim>\<open><cmath>\<close>, which (in libstdc++, the library of g++) declares the overloads for
  floating-point arguments in namespace \<^verbatim>\<open>std\<close> only.  A call \<^verbatim>\<open>::abs(x)\<close> on a \<^verbatim>\<open>double\<close>
  therefore first converts \<open>x\<close> to \<^verbatim>\<open>int\<close> (32 bits).  The conversion drops the fractional
  part; when the truncated value is outside the range of \<^verbatim>\<open>int\<close> the behaviour is undefined,
  and so is \<^verbatim>\<open>abs\<close> of the least \<^verbatim>\<open>int\<close>.  Both read \<open>None\<close> where the behaviour is undefined.
\<close>

definition int_of_double :: "real \<Rightarrow> int option" where
  "int_of_double x =
     (if - 2147483648 \<le> trunc x \<and> trunc x \<le> 2147483647 then Some (trunc x) else None)"

definition abs_int :: "int \<Rightarrow> int option" where
  "abs_int i = (if i = - 2147483648 then None else Some \<bar>i\<bar>)"

definition fmod :: "real \<Rightarrow> real \<Rightarrow> real" where
  "fmod x y = x - of_int (trunc (x / y)) * y"

definition float_epsilon :: real where
  "float_epsilon = 1 / 2 ^ 23"

section \<open>Geometry primitives used by the hardware model\<close>

type_synonym dpair = "real \<times> real"

text \<open>
  Modelled from the spec: \<^verbatim>\<open>fbg::sq\<close> and \<^verbatim>\<open>fbg::dist\<close> are declared in the geometry
  header, which is not among the sources.  The spec reads \<^verbatim>\<open>sq(offset)\<close> as
  \<open>s = |offset|\<^sup>2\<close> and \<^verbatim>\<open>dist\<close> as the euclidean distance of two centers.
\<close>

definition sq :: "real \<Rightarrow> real" where
  "sq x = x * x"

definition sq_pair :: "dpair \<Rightarrow> real" where
  "sq_pair p = fst p * fst p + snd p * snd p"

definition fbg_dist :: "dpair \<Rightarrow> dpair \<Rightarrow> real" where
  "fbg_dist p q = sqrt (sq_pair (fst p - fst q, snd p - snd q))"

text \<open>
  The class \<^verbatim>\<open>fbg::shape\<close> and the function \<^verbatim>\<open>fbg::intersect\<close> are not among the sources
  either.  The shape type is a type parameter and what the hardware code uses of it is passed
  as a record: the default-constructed shape \<^verbatim>\<open>fbg::shape()\<close> (\<open>shape0\<close>),
  \<^verbatim>\<open>s.transl(v)\<close>, \<^verbatim>\<open>s.rotation_origin(cs)\<close>, \<^verbatim>\<open>s.rotation(cs)\<close> (all three mutate
  \<^verbatim>\<open>s\<close>; here they return the new shape) and \<^verbatim>\<open>intersect(s1, s2)\<close>.
\<close>

record 'shape geom =
  shape0 :: 'shape
  transl :: "dpair \<Rightarrow> 'shape \<Rightarrow> 'shape"
  rotation_origin :: "dpair \<Rightarrow> 'shape \<Rightarrow> 'shape"
  rotation :: "dpair \<Rightarrow> 'shape \<Rightarrow> 'shape"
  intersect :: "'shape \<Rightarrow> 'shape \<Rightarrow> bool"

section \<open>Radial distortion and sky projection (\<^verbatim>\<open>src/hardware.cpp\<close>)\<close>

text \<open>\<^verbatim>\<open>radial_ang2dist\<close>: the Horner loop over \<^verbatim>\<open>p[4] = {8.297e5, -1750., 1.394e4, 0.0}\<close>.\<close>

definition radial_p :: "real list" where
  "radial_p = [829700, - 1750, 13940, 0]"

definition radial_ang2dist :: "real \<Rightarrow> real" where
  "radial_ang2dist theta_rad = fold (\<lambda>p dist_mm. theta_rad * dist_mm + p) radial_p 0"

text \<open>
  \<^verbatim>\<open>radial_dist2ang\<close>: the \<^verbatim>\<open>while (::abs(error) > 1e-7)\<close> loop, with its state
  (\<^verbatim>\<open>theta_rad\<close>, \<^verbatim>\<open>error\<close>).  The test converts \<^verbatim>\<open>error\<close> to \<^verbatim>\<open>int\<close>, takes the absolute
  value of that integer and compares it, converted back to \<^verbatim>\<open>double\<close>, with \<^verbatim>\<open>1e-7\<close>.  The
  loop has no iteration bound, so the function is partial.  The result \<open>None\<close> is a run with no
  result: one that never leaves the loop, or one whose test is undefined.
\<close>

definition delta_theta :: real where
  "delta_theta = 1 / 10 ^ 4"

definition inv_delta :: real where
  "inv_delta = 1 / delta_theta"

partial_function (option) radial_dist2ang_loop :: "real \<Rightarrow> real \<Rightarrow> real \<Rightarrow> real option" where
  "radial_dist2ang_loop dist_mm theta_rad error =
     (case int_of_double error of
        None \<Rightarrow> None
      | Some i \<Rightarrow>
         (case abs_int i of
            None \<Rightarrow> None
          | Some a \<Rightarrow>
             if of_int a > (1 / 10 ^ 7 :: real) then
               (let distcur = radial_ang2dist theta_rad;
                    distdelta = radial_ang2dist (theta_rad + delta_theta);
                    error1 = distcur - dist_mm;
                    correction = error1 / (inv_delta * (distdelta - distcur))
                in radial_dist2ang_loop dist_mm (theta_rad - correction) error1)
             else Some theta_rad))"

definition radial_dist2ang :: "real \<Rightarrow> real option" where
  "radial_dist2ang dist_mm = radial_dist2ang_loop dist_mm (1 / 100) 1"

definition radec2xy :: "real \<Rightarrow> real \<Rightarrow> real \<Rightarrow> real \<Rightarrow> real \<Rightarrow> dpair" where
  "radec2xy tilera tiledec tiletheta ra dec =
     (let deg_to_rad = pi / 180;
          inc_rad = (90 - dec) * deg_to_rad;
          ra_rad = ra * deg_to_rad;
          tilera_rad = tilera * deg_to_rad;
          tiledec_rad = tiledec * deg_to_rad;
          tiletheta_rad = tiletheta * deg_to_rad;
          sin_inc_rad = sin inc_rad;
          x0 = sin_inc_rad * cos ra_rad;
          y0 = sin_inc_rad * sin ra_rad;
          z0 = cos inc_rad;
          cos_tilera_rad = cos tilera_rad;
          sin_tilera_rad = sin tilera_rad;
          x1 = cos_tilera_rad * x0 + sin_tilera_rad * y0;
          y1 = - sin_tilera_rad * x0 + cos_tilera_rad * y0;
          z1 = z0;
          cos_tiledec_rad = cos tiledec_rad;
          sin_tiledec_rad = sin tiledec_rad;
          x = cos_tiledec_rad * x1 + sin_tiledec_rad * z1;
          y = y1;
          z = - sin_tiledec_rad * x1 + cos_tiledec_rad * z1;
          ra_ang_rad0 = atan2 y x;
          ra_ang_rad = (if ra_ang_rad0 < 0 then 2 * pi + ra_ang_rad0 else ra_ang_rad0);
          dec_ang_rad = (pi / 2) - arccos (z / sqrt ((x * x) + (y * y) + (z * z)));
          radius_rad = 2 * arcsin (sqrt ((sin (dec_ang_rad / 2)) ^ 2
                          + cos dec_ang_rad * (sin (ra_ang_rad / 2)) ^ 2));
          q_rad = atan2 z (- y);
          radius_mm = radial_ang2dist radius_rad;
          rotated = q_rad + tiletheta_rad;
          x_focalplane = radius_mm * cos rotated;
          y_focalplane = radius_mm * sin rotated
      in (x_focalplane, y_focalplane))"

definition xy2radec :: "real \<Rightarrow> real \<Rightarrow> real \<Rightarrow> real \<Rightarrow> real \<Rightarrow> dpair option" where
  "xy2radec tilera tiledec tiletheta x_mm y_mm =
     (let deg_to_rad = pi / 180;
          rad_to_deg = 180 / pi;
          tilera_rad = tilera * deg_to_rad;
          tiledec_rad = tiledec * deg_to_rad;
          tiletheta_rad = tiletheta * deg_to_rad;
          radius_mm = sqrt (x_mm * x_mm + y_mm * y_mm)
      in case radial_dist2ang radius_mm of
           None \<Rightarrow> None
         | Some radius_rad \<Rightarrow>
            (let rotated = atan2 y_mm x_mm;
                 q_rad = rotated - tiletheta_rad;
                 x1 = cos radius_rad;
                 y1 = - sin radius_rad;
                 x2 = x1;
                 y2 = y1 * cos q_rad;
                 z2 = - y1 * sin q_rad;
                 cos_tiledec = cos tiledec_rad;
                 sin_tiledec = sin tiledec_rad;
                 cos_tilera = cos tilera_rad;
                 sin_tilera = sin tilera_rad;
                 x3 = cos_tiledec * x2 - sin_tiledec * z2;
                 y3 = y2;
                 z3 = sin_tiledec * x2 + cos_tiledec * z2;
                 x4 = cos_tilera * x3 - sin_tilera * y3;
                 y4 = sin_tilera * x3 + cos_tilera * y3;
                 z4 = z3;
                 ra_rad0 = atan2 y4 x4;
                 ra_rad = (if ra_rad0 < 0 then 2 * pi + ra_rad0 else ra_rad0);
                 dec_rad = pi / 2 - arccos z4;
                 ra = fmod (ra_rad * rad_to_deg) 360;
                 dec = dec_rad * rad_to_deg
             in Some (ra, dec)))"

text \<open>
  \<^verbatim>\<open>radec2xy_multi\<close>: \<^verbatim>\<open>xy\<close> is an in-out vector, resized to \<^verbatim>\<open>ra.size()\<close>; iteration
  \<^verbatim>\<open>t\<close> is \<^verbatim>\<open>xy[t] = radec2xy(tilera, tiledec, tiletheta, ra[t], dec[t])\<close>.
\<close>

definition radec2xy_multi_body ::
  "real \<Rightarrow> real \<Rightarrow> real \<Rightarrow> real list \<Rightarrow> real list \<Rightarrow> nat \<Rightarrow> dpair list \<Rightarrow> error + dpair list" where
  "radec2xy_multi_body tilera tiledec tiletheta ra dec t xy =
     ebind (vec_at ra t) (\<lambda>ra_t.
     ebind (vec_at dec t) (\<lambda>dec_t.
       if t < length xy then Inr (xy[t := radec2xy tilera tiledec tiletheta ra_t dec_t])
       else Inl Bad_index))"

definition radec2xy_multi ::
  "omp_runtime \<Rightarrow> real \<Rightarrow> real \<Rightarrow> real \<Rightarrow> real list \<Rightarrow> real list \<Rightarrow> dpair list \<Rightarrow> int
   \<Rightarrow> error + dpair list" where
  "radec2xy_multi rt tilera tiledec tiletheta ra dec xy threads =
     (let ntg = length ra;
          xy1 = resize_vec ntg (0, 0) xy;
          run_threads = run_threads_of rt threads
      in omp_for rt run_threads ntg (radec2xy_multi_body tilera tiledec tiletheta ra dec) xy1)"

text \<open>
  \<^verbatim>\<open>xy2radec_multi\<close>: as above with \<^verbatim>\<open>radec[i] = xy2radec(..., x_mm[i], y_mm[i])\<close>.  An
  iteration whose \<^verbatim>\<open>xy2radec\<close> has no result (it never returns, or its behaviour is undefined)
  leaves the whole call without one: the result is \<open>None\<close>.
\<close>

definition xy2radec_multi_body ::
  "real \<Rightarrow> real \<Rightarrow> real \<Rightarrow> real list \<Rightarrow> real list \<Rightarrow> nat \<Rightarrow> dpair list
   \<Rightarrow> (error + dpair list) option" where
  "xy2radec_multi_body tilera tiledec tiletheta x_mm y_mm i radec =
     (case vec_at x_mm i of
        Inl e \<Rightarrow> Some (Inl e)
      | Inr x \<Rightarrow>
         (case vec_at y_mm i of
            Inl e \<Rightarrow> Some (Inl e)
          | Inr y \<Rightarrow>
             (case xy2radec tilera tiledec tiletheta x y of
                None \<Rightarrow> None
              | Some rd \<Rightarrow>
                  if i < length radec then Some (Inr (radec[i := rd]))
                  else Some (Inl Bad_index))))"

fun ofold :: "('a \<Rightarrow> 's \<Rightarrow> (error + 's) option) \<Rightarrow> 'a list \<Rightarrow> 's \<Rightarrow> (error + 's) option" where
  "ofold body [] s = Some (Inr s)"
| "ofold body (x # xs) s =
     (case body x s of
        None \<Rightarrow> None
      | Some (Inl e) \<Rightarrow> Some (Inl e)
      | Some (Inr s1) \<Rightarrow> ofold body xs s1)"

definition xy2radec_multi ::
  "omp_runtime \<Rightarrow> real \<Rightarrow> real \<Rightarrow> real \<Rightarrow> real list \<Rightarrow> real list \<Rightarrow> dpair list \<Rightarrow> int
   \<Rightarrow> (error + dpair list) option" where
  "xy2radec_multi rt tilera tiledec tiletheta x_mm y_mm radec threads =
     (let npos = length x_mm;
          radec1 = resize_vec npos (0, 0) radec;
          run_threads = run_threads_of rt threads
      in ofold (xy2radec_multi_body tilera tiledec tiletheta x_mm y_mm)
           (omp_order rt run_threads npos) radec1)"

section \<open>Positioner kinematics (\<^verbatim>\<open>src/hardware.cpp\<close>)\<close>

text \<open>
  \<^verbatim>\<open>_check_angle_range(ang, ang_zero, ang_min, ang_max)\<close>: the angle is passed by reference;
  the model returns the flag together with the angle as the call leaves it.
\<close>

definition check_angle_range :: "real \<Rightarrow> real \<Rightarrow> real \<Rightarrow> real \<Rightarrow> bool \<times> real" where
  "check_angle_range ang ang_zero ang_min ang_max =
     (let twopi = 2 * pi;
          abs_min = ang_zero + ang_min;
          abs_max = ang_zero + ang_max;
          ang1 = (if ang < abs_min then ang + twopi else ang);
          ang2 = (if ang1 > abs_max then ang1 - twopi else ang1)
      in if ang2 < abs_min \<or> ang2 > abs_max then (True, ang2) else (False, ang2))"

text \<open>
  \<^verbatim>\<open>move_positioner_thetaphi\<close>: the two shapes are in-out parameters, \<^verbatim>\<open>theta\<close> and
  \<^verbatim>\<open>phi\<close> are passed by value.  The result is the returned flag and the two shapes as the
  call leaves them.
\<close>

definition move_positioner_thetaphi ::
  "'shape geom \<Rightarrow> 'shape \<Rightarrow> 'shape \<Rightarrow> dpair \<Rightarrow> real \<Rightarrow> real \<Rightarrow> real \<Rightarrow> real \<Rightarrow> real \<Rightarrow> real
   \<Rightarrow> real \<Rightarrow> real \<Rightarrow> real \<Rightarrow> real \<Rightarrow> bool \<times> 'shape \<times> 'shape" where
  "move_positioner_thetaphi G shptheta shpphi center theta phi
       theta_arm phi_arm theta_zero phi_zero theta_min phi_min theta_max phi_max =
     (let (bad_phi, phi1) = check_angle_range phi phi_zero phi_min phi_max;
          (bad_theta, theta1) = check_angle_range theta theta_zero theta_min theta_max
      in if bad_phi \<or> bad_theta then (True, shptheta, shpphi)
         else
           let cstheta = (cos theta1, sin theta1);
               csphi = (cos phi1, sin phi1);
               shpphi_a = transl G (theta_arm, 0) shpphi;
               shptheta_b = rotation_origin G cstheta shptheta;
               shpphi_b = rotation_origin G cstheta shpphi_a;
               shpphi_c = rotation G csphi shpphi_b;
               shpphi_d = transl G center shpphi_c;
               shptheta_d = transl G center shptheta_b
           in (False, shptheta_d, shpphi_d))"

text \<open>
  The tail of \<^verbatim>\<open>xy_to_thetaphi\<close> ("Check that angles are in range"), shared by the three
  branches that reach it.
\<close>

definition thetaphi_in_range ::
  "real \<Rightarrow> real \<Rightarrow> real \<Rightarrow> real \<Rightarrow> real \<Rightarrow> real \<Rightarrow> real \<Rightarrow> real \<Rightarrow> bool \<times> real \<times> real" where
  "thetaphi_in_range theta phi theta_zero phi_zero theta_min phi_min theta_max phi_max =
     (let (bad_phi, phi1) = check_angle_range phi phi_zero phi_min phi_max;
          (bad_theta, theta1) = check_angle_range theta theta_zero theta_min theta_max
      in if bad_phi \<or> bad_theta then (True, theta1, phi1) else (False, theta1, phi1))"

text \<open>
  \<^verbatim>\<open>xy_to_thetaphi\<close>: \<^verbatim>\<open>theta\<close> and \<^verbatim>\<open>phi\<close> are out parameters; the result is
  (flag, theta, phi).  On the two early returns the out parameters hold their initial
  values \<open>0\<close> and \<open>\<pi>\<close>.
\<close>

definition xy_to_thetaphi ::
  "dpair \<Rightarrow> dpair \<Rightarrow> real \<Rightarrow> real \<Rightarrow> real \<Rightarrow> real \<Rightarrow> real \<Rightarrow> real \<Rightarrow> real \<Rightarrow> real
   \<Rightarrow> bool \<times> real \<times> real" where
  "xy_to_thetaphi center position theta_arm phi_arm theta_zero phi_zero
       theta_min phi_min theta_max phi_max =
     (let offset = (fst position - fst center, snd position - snd center);
          sq_theta_arm = theta_arm * theta_arm;
          sq_phi_arm = phi_arm * phi_arm;
          sq_offset = sq_pair offset;
          sq_total_arm = sq (theta_arm + phi_arm);
          sq_diff_arm = sq (theta_arm - phi_arm)
      in if \<bar>sq_offset - sq_total_arm\<bar> \<le> float_epsilon then
           thetaphi_in_range (atan2 (snd offset) (fst offset)) 0
             theta_zero phi_zero theta_min phi_min theta_max phi_max
         else if \<bar>sq_diff_arm - sq_offset\<bar> \<le> float_epsilon then
           thetaphi_in_range (atan2 (snd offset) (fst offset)) pi
             theta_zero phi_zero theta_min phi_min theta_max phi_max
         else if sq_total_arm < sq_offset then (True, 0, pi)
         else if sq_offset < sq_diff_arm then (True, 0, pi)
         else
           let opening = arccos ((sq_theta_arm + sq_phi_arm - sq_offset)
                                   / (2 * theta_arm * phi_arm));
               phi = pi - opening;
               nrm_offset = sqrt sq_offset;
               txy = arccos ((sq_theta_arm + sq_offset - sq_phi_arm)
                               / (2 * theta_arm * nrm_offset));
               theta = atan2 (snd offset) (fst offset) - txy
           in thetaphi_in_range theta phi
                theta_zero phi_zero theta_min phi_min theta_max phi_max)"

definition move_positioner_xy ::
  "'shape geom \<Rightarrow> 'shape \<Rightarrow> 'shape \<Rightarrow> dpair \<Rightarrow> dpair \<Rightarrow> real \<Rightarrow> real \<Rightarrow> real \<Rightarrow> real
   \<Rightarrow> real \<Rightarrow> real \<Rightarrow> real \<Rightarrow> real \<Rightarrow> bool \<times> 'shape \<times> 'shape" where
  "move_positioner_xy G shptheta shpphi center position
       theta_arm phi_arm theta_zero phi_zero theta_min phi_min theta_max phi_max =
     (let (fail, theta, phi) = xy_to_thetaphi center position theta_arm phi_arm
             theta_zero phi_zero theta_min phi_min theta_max phi_max
      in if fail then (True, shptheta, shpphi)
         else move_positioner_thetaphi G shptheta shpphi center theta phi
                theta_arm phi_arm theta_zero phi_zero theta_min phi_min theta_max phi_max)"

section \<open>The hardware object\<close>

text \<open>
  The members of \<^verbatim>\<open>fba::Hardware\<close> that \<^verbatim>\<open>src/hardware.cpp\<close> assigns.  The per-location
  members are \<^verbatim>\<open>std::map\<close>s keyed by location id.
\<close>

record 'shape hardware =
  nloc :: nat
  npetal :: nat
  timestr_ :: string
  ps_radius_ :: "real list"
  ps_theta_ :: "real list"
  locations :: "int list"
  petal_locations :: "int \<rightharpoonup> int list"
  loc_petal :: "int \<rightharpoonup> int"
  loc_device :: "int \<rightharpoonup> int"
  loc_device_type :: "int \<rightharpoonup> string"
  loc_fiber :: "int \<rightharpoonup> int"
  loc_slitblock :: "int \<rightharpoonup> int"
  loc_blockfiber :: "int \<rightharpoonup> int"
  loc_pos_xy_mm :: "int \<rightharpoonup> dpair"
  state :: "int \<rightharpoonup> int"
  neighbors :: "int \<rightharpoonup> int list"
  petal_edge :: "int \<rightharpoonup> bool"
  gfa_edge :: "int \<rightharpoonup> bool"
  loc_theta_offset :: "int \<rightharpoonup> real"
  loc_theta_min :: "int \<rightharpoonup> real"
  loc_theta_max :: "int \<rightharpoonup> real"
  loc_theta_arm :: "int \<rightharpoonup> real"
  loc_phi_offset :: "int \<rightharpoonup> real"
  loc_phi_min :: "int \<rightharpoonup> real"
  loc_phi_max :: "int \<rightharpoonup> real"
  loc_phi_arm :: "int \<rightharpoonup> real"
  loc_theta_excl :: "int \<rightharpoonup> 'shape"
  loc_phi_excl :: "int \<rightharpoonup> 'shape"
  loc_gfa_excl :: "int \<rightharpoonup> 'shape"
  loc_petal_excl :: "int \<rightharpoonup> 'shape"
  nfiber_petal :: int
  focalplane_radius_deg :: real
  neighbor_radius_mm :: real
  patrol_buffer_mm :: real

text \<open>
  The twelve \<^verbatim>\<open>.at(loc)\<close> look-ups of \<^verbatim>\<open>loc_position_xy\<close>, in the order the code makes
  them: the two exclusion shapes are copied first, the ten arguments of the call follow.
\<close>

record 'shape positioner =
  p_theta_excl :: 'shape
  p_phi_excl :: 'shape
  p_center :: dpair
  p_theta_arm :: real
  p_phi_arm :: real
  p_theta_offset :: real
  p_phi_offset :: real
  p_theta_min :: real
  p_phi_min :: real
  p_theta_max :: real
  p_phi_max :: real

definition loc_lookup :: "'shape hardware \<Rightarrow> int \<Rightarrow> error + 'shape positioner" where
  "loc_lookup hw loc =
     ebind (map_at (loc_theta_excl hw) loc) (\<lambda>shptheta.
     ebind (map_at (loc_phi_excl hw) loc) (\<lambda>shpphi.
     ebind (map_at (loc_pos_xy_mm hw) loc) (\<lambda>center.
     ebind (map_at (loc_theta_arm hw) loc) (\<lambda>ta.
     ebind (map_at (loc_phi_arm hw) loc) (\<lambda>pa.
     ebind (map_at (loc_theta_offset hw) loc) (\<lambda>tz.
     ebind (map_at (loc_phi_offset hw) loc) (\<lambda>pz.
     ebind (map_at (loc_theta_min hw) loc) (\<lambda>tmin.
     ebind (map_at (loc_phi_min hw) loc) (\<lambda>pmin.
     ebind (map_at (loc_theta_max hw) loc) (\<lambda>tmax.
     ebind (map_at (loc_phi_max hw) loc) (\<lambda>pmax.
       Inr \<lparr> p_theta_excl = shptheta, p_phi_excl = shpphi, p_center = center,
             p_theta_arm = ta, p_phi_arm = pa, p_theta_offset = tz, p_phi_offset = pz,
             p_theta_min = tmin, p_phi_min = pmin, p_theta_max = tmax,
             p_phi_max = pmax \<rparr>)))))))))))"

text \<open>
  \<^verbatim>\<open>loc_position_xy(loc, xy, shptheta, shpphi)\<close>: the two shapes are out parameters,
  overwritten with the location's exclusion polygons before the move.
\<close>

definition loc_position_xy ::
  "'shape geom \<Rightarrow> 'shape hardware \<Rightarrow> int \<Rightarrow> dpair \<Rightarrow> error + (bool \<times> 'shape \<times> 'shape)" where
  "loc_position_xy G hw loc xy =
     ebind (loc_lookup hw loc) (\<lambda>p.
       Inr (move_positioner_xy G (p_theta_excl p) (p_phi_excl p) (p_center p) xy
              (p_theta_arm p) (p_phi_arm p) (p_theta_offset p) (p_phi_offset p)
              (p_theta_min p) (p_phi_min p) (p_theta_max p) (p_phi_max p)))"

definition loc_position_thetaphi ::
  "'shape geom \<Rightarrow> 'shape hardware \<Rightarrow> int \<Rightarrow> real \<Rightarrow> real
   \<Rightarrow> error + (bool \<times> 'shape \<times> 'shape)" where
  "loc_position_thetaphi G hw loc theta phi =
     ebind (loc_lookup hw loc) (\<lambda>p.
       Inr (move_positioner_thetaphi G (p_theta_excl p) (p_phi_excl p) (p_center p) theta phi
              (p_theta_arm p) (p_phi_arm p) (p_theta_offset p) (p_phi_offset p)
              (p_theta_min p) (p_phi_min p) (p_theta_max p) (p_phi_max p)))"

text \<open>
  \<^verbatim>\<open>collide_xy\<close>.  The copies \<^verbatim>\<open>shptheta1(loc_theta_excl.at(loc1))\<close> and
  \<^verbatim>\<open>shpphi1(loc_phi_excl.at(loc1))\<close> made before each placement can throw; their values are
  overwritten by \<^verbatim>\<open>loc_position_xy\<close>.
\<close>

definition collide_xy ::
  "'shape geom \<Rightarrow> 'shape hardware \<Rightarrow> int \<Rightarrow> dpair \<Rightarrow> int \<Rightarrow> dpair \<Rightarrow> error + bool" where
  "collide_xy G hw loc1 xy1 loc2 xy2 =
     ebind (map_at (loc_theta_excl hw) loc1) (\<lambda>_.
     ebind (map_at (loc_phi_excl hw) loc1) (\<lambda>_.
     ebind (loc_position_xy G hw loc1 xy1) (\<lambda>(failed1, shptheta1, shpphi1).
       if failed1 then Inr True
       else
         ebind (map_at (loc_theta_excl hw) loc2) (\<lambda>_.
         ebind (map_at (loc_phi_excl hw) loc2) (\<lambda>_.
         ebind (loc_position_xy G hw loc2 xy2) (\<lambda>(failed2, shptheta2, shpphi2).
           if failed2 then Inr True
           else if intersect G shpphi1 shpphi2 then Inr True
           else if intersect G shptheta1 shpphi2 then Inr True
           else if intersect G shptheta2 shpphi1 then Inr True
           else Inr False))))))"

section \<open>Batch collision check (\<^verbatim>\<open>src/hardware.cpp\<close>)\<close>

text \<open>
  \<^verbatim>\<open>loc_position_xy_multi\<close>: the result vector is created with \<^verbatim>\<open>nlc\<close> default cells;
  iteration \<^verbatim>\<open>f\<close> stores the flag and the two shapes of
  \<^verbatim>\<open>loc_position_xy(loc[f], xy[f], ...)\<close> in cell \<^verbatim>\<open>f\<close>.
\<close>

definition loc_position_xy_multi_body ::
  "'shape geom \<Rightarrow> 'shape hardware \<Rightarrow> int list \<Rightarrow> dpair list \<Rightarrow> nat
   \<Rightarrow> (bool \<times> 'shape \<times> 'shape) list \<Rightarrow> error + (bool \<times> 'shape \<times> 'shape) list" where
  "loc_position_xy_multi_body G hw loc xy f result =
     ebind (vec_at loc f) (\<lambda>loc_f.
     ebind (vec_at xy f) (\<lambda>xy_f.
     ebind (loc_position_xy G hw loc_f xy_f) (\<lambda>r.
       if f < length result then Inr (result[f := r]) else Inl Bad_index)))"

definition loc_position_xy_multi ::
  "'shape geom \<Rightarrow> omp_runtime \<Rightarrow> 'shape hardware \<Rightarrow> int list \<Rightarrow> dpair list \<Rightarrow> int
   \<Rightarrow> error + (bool \<times> 'shape \<times> 'shape) list" where
  "loc_position_xy_multi G rt hw loc xy threads =
     (let nlc = length loc;
          result = replicate nlc (False, shape0 G, shape0 G);
          run_threads = run_threads_of rt threads
      in omp_for rt run_threads nlc (loc_position_xy_multi_body G hw loc xy) result)"

text \<open>
  \<^verbatim>\<open>std::map <int32_t, std::vector <int32_t> > checklookup\<close> is iterated in key order when
  the pairs are listed, so it is kept as an association list sorted by key: \<open>smap_update\<close> is
  \<^verbatim>\<open>m[k] = v\<close>, look-up is \<^const>\<open>map_of\<close>.
\<close>

fun smap_update :: "int \<Rightarrow> 'v \<Rightarrow> (int \<times> 'v) list \<Rightarrow> (int \<times> 'v) list" where
  "smap_update k v [] = [(k, v)]"
| "smap_update k v ((k1, v1) # kvs) =
     (if k < k1 then (k, v) # (k1, v1) # kvs
      else if k = k1 then (k, v) # kvs
      else (k1, v1) # smap_update k v kvs)"

text \<open>
  The body of \<^verbatim>\<open>for (auto const & nb : neighbors.at(lid))\<close>: the pair is ordered, the entry
  of \<^verbatim>\<open>low\<close> is created if missing, \<^verbatim>\<open>high\<close> is searched for in it and appended if absent.
\<close>

definition checklookup_add :: "int \<Rightarrow> int \<Rightarrow> (int \<times> int list) list \<Rightarrow> (int \<times> int list) list" where
  "checklookup_add lid nb checklookup =
     (let low = (if lid < nb then lid else nb);
          high = (if lid < nb then nb else lid);
          checklookup1 = (if map_of checklookup low = None
                          then smap_update low [] checklookup else checklookup);
          highs = (case map_of checklookup1 low of None \<Rightarrow> [] | Some v \<Rightarrow> v);
          found = fold (\<lambda>ck found. if ck = high then True else found) highs False
      in if \<not> found then smap_update low (highs @ [high]) checklookup1 else checklookup1)"

text \<open>
  The body of \<^verbatim>\<open>for (auto const & lid : loc)\<close>, on the state
  (\<^verbatim>\<open>loc_indx\<close>, \<^verbatim>\<open>checklookup\<close>, \<^verbatim>\<open>idx\<close>).
\<close>

definition checklookup_loc ::
  "'shape hardware \<Rightarrow> int \<Rightarrow> (int \<rightharpoonup> nat) \<times> (int \<times> int list) list \<times> nat
   \<Rightarrow> error + ((int \<rightharpoonup> nat) \<times> (int \<times> int list) list \<times> nat)" where
  "checklookup_loc hw lid st =
     (case st of (loc_indx, checklookup, idx) \<Rightarrow>
        ebind (map_at (neighbors hw) lid) (\<lambda>nbs.
          Inr (loc_indx(lid \<mapsto> idx), fold (checklookup_add lid) nbs checklookup, idx + 1)))"

definition checkpairs_of :: "(int \<times> int list) list \<Rightarrow> (int \<times> int) list" where
  "checkpairs_of checklookup = concat (map (\<lambda>(low, highs). map (Pair low) highs) checklookup)"

text \<open>The test made on one pair of placed positioners (\<^verbatim>\<open>bool hit\<close>).\<close>

definition shapes_hit ::
  "'shape geom \<Rightarrow> bool \<times> 'shape \<times> 'shape \<Rightarrow> bool \<times> 'shape \<times> 'shape \<Rightarrow> bool" where
  "shapes_hit G pos1 pos2 =
     (case pos1 of (failed1, shptheta1, shpphi1) \<Rightarrow>
      case pos2 of (failed2, shptheta2, shpphi2) \<Rightarrow>
        if failed1 \<or> failed2 then True
        else if intersect G shpphi1 shpphi2 then True
        else if intersect G shptheta1 shpphi2 then True
        else if intersect G shptheta2 shpphi1 then True
        else False)"

text \<open>Iteration \<^verbatim>\<open>p\<close> of the loop over the pairs.\<close>

definition check_pair ::
  "'shape geom \<Rightarrow> (bool \<times> 'shape \<times> 'shape) list \<Rightarrow> (int \<rightharpoonup> nat) \<Rightarrow> (int \<times> int) list
   \<Rightarrow> nat \<Rightarrow> bool list \<Rightarrow> error + bool list" where
  "check_pair G fpos loc_indx checkpairs p result =
     ebind (vec_at checkpairs p) (\<lambda>(flow, fhigh).
     ebind (map_at loc_indx flow) (\<lambda>i1.
     ebind (vec_at fpos i1) (\<lambda>pos1.
     ebind (map_at loc_indx fhigh) (\<lambda>i2.
     ebind (vec_at fpos i2) (\<lambda>pos2.
       if shapes_hit G pos1 pos2 then
         (if i1 < length result \<and> i2 < length result
          then Inr (result[i1 := True, i2 := True]) else Inl Bad_index)
       else Inr result)))))"

definition check_collisions_xy ::
  "'shape geom \<Rightarrow> omp_runtime \<Rightarrow> 'shape hardware \<Rightarrow> int list \<Rightarrow> dpair list \<Rightarrow> int
   \<Rightarrow> error + bool list" where
  "check_collisions_xy G rt hw loc xy threads =
     (let nlc = length loc
      in ebind (loc_position_xy_multi G rt hw loc xy threads) (\<lambda>fpos.
         ebind (efold (checklookup_loc hw) loc (Map.empty, [], 0)) (\<lambda>(loc_indx, checklookup, idx).
           let checkpairs = checkpairs_of checklookup;
               npairs = length checkpairs;
               result = replicate nlc False;
               run_threads = run_threads_of rt threads
           in omp_for rt run_threads npairs (check_pair G fpos loc_indx checkpairs) result)))"

section \<open>Construction of the hardware object\<close>

text \<open>
  The arguments of the constructor \<^verbatim>\<open>Hardware::Hardware\<close>, in the order of its parameter
  list; every field carries the prefix \<open>arg_\<close>.
\<close>

record 'shape hardware_args =
  arg_timestr :: string
  arg_location :: "int list"
  arg_petal :: "int list"
  arg_device :: "int list"
  arg_slitblock :: "int list"
  arg_blockfiber :: "int list"
  arg_fiber :: "int list"
  arg_device_type :: "string list"
  arg_x_mm :: "real list"
  arg_y_mm :: "real list"
  arg_status :: "int list"
  arg_theta_offset :: "real list"
  arg_theta_min :: "real list"
  arg_theta_max :: "real list"
  arg_theta_arm :: "real list"
  arg_phi_offset :: "real list"
  arg_phi_min :: "real list"
  arg_phi_max :: "real list"
  arg_phi_arm :: "real list"
  arg_ps_radius :: "real list"
  arg_ps_theta :: "real list"
  arg_excl_theta :: "'shape list"
  arg_excl_phi :: "'shape list"
  arg_excl_gfa :: "'shape list"
  arg_excl_petal :: "'shape list"

text \<open>
  \<^verbatim>\<open>m[k]\<close> on a \<^verbatim>\<open>std::map\<close> whose values are vectors: a missing key reads as the empty
  vector; \<^verbatim>\<open>m[k].push_back(v)\<close>.
\<close>

definition map_index :: "('k \<rightharpoonup> 'v list) \<Rightarrow> 'k \<Rightarrow> 'v list" where
  "map_index m k = (case m k of None \<Rightarrow> [] | Some v \<Rightarrow> v)"

definition push_back_at :: "('k \<rightharpoonup> 'v list) \<Rightarrow> 'k \<Rightarrow> 'v \<Rightarrow> ('k \<rightharpoonup> 'v list)" where
  "push_back_at m k v = m(k \<mapsto> map_index m k @ [v])"

text \<open>
  The state of the members before the per-location loop: \<^verbatim>\<open>nloc\<close>, \<^verbatim>\<open>timestr_\<close>, the two
  \<^verbatim>\<open>ps_\<close> arrays and \<^verbatim>\<open>npetal\<close> assigned, every container empty, \<^verbatim>\<open>petal_locations[i]\<close>
  created empty for \<open>i < npetal\<close>.  \<open>np\<close> is the value of \<^verbatim>\<open>maxpetal + 1\<close>.  The four numeric
  parameters are assigned later in the constructor; until then they read \<open>0\<close> here.
\<close>

definition maxpetal_of :: "int list \<Rightarrow> int" where
  "maxpetal_of petal = fold (\<lambda>p maxpetal. if p > maxpetal then p else maxpetal) petal 0"

definition Hardware_init :: "'shape hardware_args \<Rightarrow> int \<Rightarrow> 'shape hardware" where
  "Hardware_init a np =
     (let npetal0 = nat np
      in \<lparr> nloc = length (arg_location a),
           npetal = npetal0,
           timestr_ = arg_timestr a,
           ps_radius_ = arg_ps_radius a,
           ps_theta_ = arg_ps_theta a,
           locations = [],
           petal_locations = fold (\<lambda>i m. m(int i \<mapsto> [])) [0..<npetal0] Map.empty,
           loc_petal = Map.empty,
           loc_device = Map.empty,
           loc_device_type = Map.empty,
           loc_fiber = Map.empty,
           loc_slitblock = Map.empty,
           loc_blockfiber = Map.empty,
           loc_pos_xy_mm = Map.empty,
           state = Map.empty,
           neighbors = Map.empty,
           petal_edge = Map.empty,
           gfa_edge = Map.empty,
           loc_theta_offset = Map.empty,
           loc_theta_min = Map.empty,
           loc_theta_max = Map.empty,
           loc_theta_arm = Map.empty,
           loc_phi_offset = Map.empty,
           loc_phi_min = Map.empty,
           loc_phi_max = Map.empty,
           loc_phi_arm = Map.empty,
           loc_theta_excl = Map.empty,
           loc_phi_excl = Map.empty,
           loc_gfa_excl = Map.empty,
           loc_petal_excl = Map.empty,
           nfiber_petal = 0,
           focalplane_radius_deg = 0,
           neighbor_radius_mm = 0,
           patrol_buffer_mm = 0 \<rparr>)"

text \<open>
  One iteration of \<^verbatim>\<open>for (int32_t i = 0; i < nloc; ++i)\<close>.  The count of locations whose
  status is not \<^verbatim>\<open>FIBER_STATE_OK\<close> is only written to the log; logging is not modelled.
\<close>

definition Hardware_row :: "'shape hardware_args \<Rightarrow> nat \<Rightarrow> 'shape hardware \<Rightarrow> error + 'shape hardware" where
  "Hardware_row a i hw =
     ebind (vec_at (arg_location a) i) (\<lambda>loc.
     ebind (vec_at (arg_petal a) i) (\<lambda>pt.
     ebind (vec_at (arg_device a) i) (\<lambda>dev.
     ebind (vec_at (arg_device_type a) i) (\<lambda>dt.
     ebind (vec_at (arg_fiber a) i) (\<lambda>fib.
     ebind (vec_at (arg_slitblock a) i) (\<lambda>sb.
     ebind (vec_at (arg_blockfiber a) i) (\<lambda>bf.
     ebind (vec_at (arg_x_mm a) i) (\<lambda>x.
     ebind (vec_at (arg_y_mm a) i) (\<lambda>y.
     ebind (vec_at (arg_status a) i) (\<lambda>st.
     ebind (vec_at (arg_theta_offset a) i) (\<lambda>t_off.
     ebind (vec_at (arg_theta_min a) i) (\<lambda>t_min.
     ebind (vec_at (arg_theta_max a) i) (\<lambda>t_max.
     ebind (vec_at (arg_theta_arm a) i) (\<lambda>t_arm.
     ebind (vec_at (arg_phi_offset a) i) (\<lambda>p_off.
     ebind (vec_at (arg_phi_min a) i) (\<lambda>p_min.
     ebind (vec_at (arg_phi_max a) i) (\<lambda>p_max.
     ebind (vec_at (arg_phi_arm a) i) (\<lambda>p_arm.
     ebind (vec_at (arg_excl_theta a) i) (\<lambda>e_theta.
     ebind (vec_at (arg_excl_phi a) i) (\<lambda>e_phi.
     ebind (vec_at (arg_excl_gfa a) i) (\<lambda>e_gfa.
     ebind (vec_at (arg_excl_petal a) i) (\<lambda>e_petal.
       Inr (hw\<lparr> locations := locations hw @ [loc],
                 loc_petal := (loc_petal hw)(loc \<mapsto> pt),
                 loc_device := (loc_device hw)(loc \<mapsto> dev),
                 loc_device_type := (loc_device_type hw)(loc \<mapsto> dt),
                 loc_fiber := (loc_fiber hw)(loc \<mapsto> fib),
                 loc_slitblock := (loc_slitblock hw)(loc \<mapsto> sb),
                 loc_blockfiber := (loc_blockfiber hw)(loc \<mapsto> bf),
                 petal_locations := push_back_at (petal_locations hw) pt loc,
                 loc_pos_xy_mm := (loc_pos_xy_mm hw)(loc \<mapsto> (x, y)),
                 state := (state hw)(loc \<mapsto> st),
                 neighbors := (neighbors hw)(loc \<mapsto> []),
                 petal_edge := (petal_edge hw)(loc \<mapsto> False),
                 gfa_edge := (gfa_edge hw)(loc \<mapsto> False),
                 loc_theta_offset := (loc_theta_offset hw)(loc \<mapsto> t_off * pi / 180),
                 loc_theta_min := (loc_theta_min hw)(loc \<mapsto> t_min * pi / 180),
                 loc_theta_max := (loc_theta_max hw)(loc \<mapsto> t_max * pi / 180),
                 loc_theta_arm := (loc_theta_arm hw)(loc \<mapsto> t_arm),
                 loc_phi_offset := (loc_phi_offset hw)(loc \<mapsto> p_off * pi / 180),
                 loc_phi_min := (loc_phi_min hw)(loc \<mapsto> p_min * pi / 180),
                 loc_phi_max := (loc_phi_max hw)(loc \<mapsto> p_max * pi / 180),
                 loc_phi_arm := (loc_phi_arm hw)(loc \<mapsto> p_arm),
                 loc_theta_excl := (loc_theta_excl hw)(loc \<mapsto> e_theta),
                 loc_phi_excl := (loc_phi_excl hw)(loc \<mapsto> e_phi),
                 loc_gfa_excl := (loc_gfa_excl hw)(loc \<mapsto> e_gfa),
                 loc_petal_excl := (loc_petal_excl hw)(loc \<mapsto> e_petal) \<rparr>
       )))))))))))))))))))))))"

text \<open>
  "Sort the locations": \<^verbatim>\<open>std::stable_sort\<close> of \<^verbatim>\<open>locations\<close> and of
  \<^verbatim>\<open>petal_locations[i]\<close> for \<open>i < npetal\<close>; then the four hard-coded parameters.
\<close>

definition Hardware_sort :: "'shape hardware \<Rightarrow> 'shape hardware" where
  "Hardware_sort hw =
     hw\<lparr> locations := sort (locations hw),
         petal_locations :=
           fold (\<lambda>i m. m(int i \<mapsto> sort (map_index m (int i)))) [0..<npetal hw]
             (petal_locations hw) \<rparr>"

definition Hardware_params :: "'shape hardware \<Rightarrow> 'shape hardware" where
  "Hardware_params hw =
     hw\<lparr> nfiber_petal := 500,
         focalplane_radius_deg := 165 / 100,
         neighbor_radius_mm := 1405 / 100,
         patrol_buffer_mm := 2 / 10 \<rparr>"

text \<open>
  "Compute neighboring locations": the body of the inner loop for the indices \<open>x < y\<close>, and
  the two nested loops.  \<^verbatim>\<open>loc_pos_xy_mm[xid]\<close> on a missing key reads as the
  value-initialised pair \<open>(0, 0)\<close>.
\<close>

definition pos_index :: "(int \<rightharpoonup> dpair) \<Rightarrow> int \<Rightarrow> dpair" where
  "pos_index m k = (case m k of None \<Rightarrow> (0, 0) | Some v \<Rightarrow> v)"

definition neighbors_pair :: "nat \<Rightarrow> nat \<Rightarrow> 'shape hardware \<Rightarrow> 'shape hardware" where
  "neighbors_pair x y hw =
     (let xid = locations hw ! x;
          yid = locations hw ! y;
          dist = fbg_dist (pos_index (loc_pos_xy_mm hw) xid) (pos_index (loc_pos_xy_mm hw) yid)
      in if dist \<le> neighbor_radius_mm hw then
           hw\<lparr> neighbors := push_back_at (push_back_at (neighbors hw) xid yid) yid xid \<rparr>
         else hw)"

definition Hardware_neighbors :: "'shape hardware \<Rightarrow> 'shape hardware" where
  "Hardware_neighbors hw =
     fold (\<lambda>x. fold (neighbors_pair x) [x + 1..<nloc hw]) [0..<nloc hw] hw"

text \<open>
  The last loop: each location's GFA and petal exclusion polygons are rotated by the petal
  angle \<^verbatim>\<open>fmod((double)(7 + pt) * 36.0, 360.0)\<close> degrees; \<^verbatim>\<open>7 + pt\<close> is added in \<^verbatim>\<open>int32_t\<close>
  and the sum converted to \<^verbatim>\<open>double\<close>.  \<^verbatim>\<open>loc_petal[lid]\<close> on a missing key reads \<open>0\<close>.
\<close>

definition petal_csang :: "int \<Rightarrow> error + dpair" where
  "petal_csang pt =
     ebind (int32_add 7 pt) (\<lambda>s.
       let petalrot_deg = fmod (of_int s * 36) 360;
           petalrot_rad = petalrot_deg * pi / 180
       in Inr (cos petalrot_rad, sin petalrot_rad))"

definition Hardware_rotate :: "'shape geom \<Rightarrow> int \<Rightarrow> 'shape hardware \<Rightarrow> error + 'shape hardware" where
  "Hardware_rotate G lid hw =
     (let pt = (case loc_petal hw lid of None \<Rightarrow> 0 | Some p \<Rightarrow> p)
      in ebind (petal_csang pt) (\<lambda>csang.
         ebind (map_at (loc_gfa_excl hw) lid) (\<lambda>gfa.
         ebind (map_at (loc_petal_excl hw) lid) (\<lambda>ptl.
           Inr (hw\<lparr> loc_gfa_excl := (loc_gfa_excl hw)(lid \<mapsto> rotation_origin G csang gfa),
                     loc_petal_excl :=
                       (loc_petal_excl hw)(lid \<mapsto> rotation_origin G csang ptl) \<rparr>)))))"

text \<open>The constructor: it returns the object, or the first error.\<close>

definition Hardware :: "'shape geom \<Rightarrow> 'shape hardware_args \<Rightarrow> error + 'shape hardware" where
  "Hardware G a =
     ebind (int32_add (maxpetal_of (arg_petal a)) 1) (\<lambda>np.
     ebind (efold (Hardware_row a) [0..<length (arg_location a)] (Hardware_init a np)) (\<lambda>hw1.
       let hw2 = Hardware_neighbors (Hardware_params (Hardware_sort hw1))
       in efold (Hardware_rotate G) (locations hw2) hw2))"

section \<open>Tiles (\<^verbatim>\<open>src/tiles.cpp\<close>)\<close>

text \<open>
  The class keeps the four parallel arrays and the reverse index \<^verbatim>\<open>order\<close>.  The index
  stored in \<^verbatim>\<open>order\<close> is the loop counter \<^verbatim>\<open>size_t i\<close>; it is kept as a \<^typ>\<open>nat\<close>.
  The members \<^verbatim>\<open>hw_\<close>, \<^verbatim>\<open>id\<close>, \<^verbatim>\<open>ra\<close>, \<^verbatim>\<open>dec\<close>, \<^verbatim>\<open>obscond\<close> and \<^verbatim>\<open>order\<close> carry the
  prefix \<open>tiles_\<close> here (\<open>id\<close> is the identity function of HOL, \<open>ra\<close> and \<open>dec\<close> are
  argument names of the projection functions).
\<close>

record 'hw tiles =
  tiles_hw :: 'hw
  tiles_id :: "int list"
  tiles_ra :: "real list"
  tiles_dec :: "real list"
  tiles_obscond :: "int list"
  tiles_order :: "int \<rightharpoonup> nat"

text \<open>The body of the constructor's loop: \<^verbatim>\<open>order[id[i]] = i\<close>.\<close>

definition Tiles_step :: "int list \<Rightarrow> nat \<Rightarrow> (int \<rightharpoonup> nat) \<Rightarrow> (int \<rightharpoonup> nat)" where
  "Tiles_step ids i ord = ord(ids ! i \<mapsto> i)"

text \<open>\<^verbatim>\<open>for (size_t i = 0; i < id.size(); ++i)\<close>, started at any \<open>i\<close>.\<close>

function Tiles_loop :: "int list \<Rightarrow> nat \<Rightarrow> (int \<rightharpoonup> nat) \<Rightarrow> (int \<rightharpoonup> nat)" where
  "Tiles_loop ids i ord =
     (if i < length ids then Tiles_loop ids (Suc i) (Tiles_step ids i ord) else ord)"
  by pat_completeness auto
termination
  by (relation "measure (\<lambda>(ids, i, ord). length ids - i)") auto

declare Tiles_loop.simps [simp del]

definition Tiles :: "'hw \<Rightarrow> int list \<Rightarrow> real list \<Rightarrow> real list \<Rightarrow> int list \<Rightarrow> 'hw tiles" where
  "Tiles hw ids ras decs obs =
     \<lparr> tiles_hw = hw, tiles_id = ids, tiles_ra = ras, tiles_dec = decs, tiles_obscond = obs,
       tiles_order = Tiles_loop ids 0 Map.empty \<rparr>"

section \<open>Predicates used in the statements\<close>

text \<open>
  The squared distance \<open>s\<close> lies strictly inside the annulus of arm lengths \<open>a\<close>, \<open>b\<close>, by more
  than the tolerance; and the condition under which \<^verbatim>\<open>xy_to_thetaphi\<close> takes one of its two
  early returns.
\<close>

definition annulus_interior :: "real \<Rightarrow> real \<Rightarrow> real \<Rightarrow> bool" where
  "annulus_interior a b s \<longleftrightarrow>
     (a - b) * (a - b) + float_epsilon < s \<and> s + float_epsilon < (a + b) * (a + b)"

definition annulus_outside :: "real \<Rightarrow> real \<Rightarrow> real \<Rightarrow> bool" where
  "annulus_outside a b s \<longleftrightarrow>
     float_epsilon < \<bar>s - (a + b) * (a + b)\<bar> \<and> float_epsilon < \<bar>(a - b) * (a - b) - s\<bar>
     \<and> ((a + b) * (a + b) < s \<or> s < (a - b) * (a - b))"

text \<open>
  Every per-location argument array of the constructor has an entry for each location (the
  constructor reads them at every index below \<^verbatim>\<open>location.size()\<close>).
\<close>

definition args_complete :: "'shape hardware_args \<Rightarrow> bool" where
  "args_complete a \<longleftrightarrow>
     (let n = length (arg_location a)
      in n \<le> length (arg_petal a) \<and> n \<le> length (arg_device a)
         \<and> n \<le> length (arg_slitblock a) \<and> n \<le> length (arg_blockfiber a)
         \<and> n \<le> length (arg_fiber a) \<and> n \<le> length (arg_device_type a)
         \<and> n \<le> length (arg_x_mm a) \<and> n \<le> length (arg_y_mm a)
         \<and> n \<le> length (arg_status a)
         \<and> n \<le> length (arg_theta_offset a) \<and> n \<le> length (arg_theta_min a)
         \<and> n \<le> length (arg_theta_max a) \<and> n \<le> length (arg_theta_arm a)
         \<and> n \<le> length (arg_phi_offset a) \<and> n \<le> length (arg_phi_min a)
         \<and> n \<le> length (arg_phi_max a) \<and> n \<le> length (arg_phi_arm a)
         \<and> n \<le> length (arg_excl_theta a) \<and> n \<le> length (arg_excl_phi a)
         \<and> n \<le> length (arg_excl_gfa a) \<and> n \<le> length (arg_excl_petal a))"

text \<open>
  Every petal index given to the constructor is an \<^verbatim>\<open>int32_t\<close> value, at most \<open>2\<^sup>3\<^sup>1 - 8\<close>:
  then neither \<^verbatim>\<open>maxpetal + 1\<close> nor \<^verbatim>\<open>7 + pt\<close> leaves the range of \<^verbatim>\<open>int32_t\<close>.
\<close>

definition petals_in_range :: "'shape hardware_args \<Rightarrow> bool" where
  "petals_in_range a \<longleftrightarrow> (\<forall>p \<in> set (arg_petal a). - 2147483648 \<le> p \<and> p \<le> 2147483640)"

text \<open>
  Two auxiliary functions for the neighbor loops: the update of \<^verbatim>\<open>neighbors\<close> made by one
  iteration of the inner loop, and the list of index pairs the two loops go through.
\<close>

definition nb_step ::
  "int list \<Rightarrow> (int \<rightharpoonup> dpair) \<Rightarrow> real \<Rightarrow> nat \<times> nat \<Rightarrow> (int \<rightharpoonup> int list) \<Rightarrow> (int \<rightharpoonup> int list)" where
  "nb_step L P r xy N =
     (if fbg_dist (pos_index P (L ! fst xy)) (pos_index P (L ! snd xy)) \<le> r
      then push_back_at (push_back_at N (L ! fst xy) (L ! snd xy)) (L ! snd xy) (L ! fst xy)
      else N)"

definition index_pairs :: "nat \<Rightarrow> (nat \<times> nat) list" where
  "index_pairs n = concat (map (\<lambda>x. map (Pair x) [x + 1..<n]) [0..<n])"

text \<open>
  For the batch collision check: a pair of location ids in ascending order, as the code
  stores it, and the set of pairs held by \<^verbatim>\<open>checklookup\<close>.
\<close>

definition ordered_pair :: "int \<Rightarrow> int \<Rightarrow> int \<times> int" where
  "ordered_pair lid nb = (if lid < nb then (lid, nb) else (nb, lid))"

definition pairset :: "(int \<times> int list) list \<Rightarrow> (int \<times> int) set" where
  "pairset cl = {(lo, hi). \<exists>hs. map_of cl lo = Some hs \<and> hi \<in> set hs}"

subsection \<open>The Newton iteration of \<^verbatim>\<open>radial_dist2ang\<close>\<close>

text \<open>
  One pass through the body of the loop of \<^verbatim>\<open>radial_dist2ang\<close> maps \<^verbatim>\<open>theta_rad\<close> to
  \<open>newton_step d theta_rad\<close>.
\<close>

definition newton_step :: "real \<Rightarrow> real \<Rightarrow> real" where
  "newton_step d t =
     t - (radial_ang2dist t - d) / (inv_delta * (radial_ang2dist (t + delta_theta) - radial_ang2dist t))"

section \<open>A small focal plane for the worked examples\<close>

text \<open>
  Shapes as lists of points, two shapes meeting when they share a point, and a focal plane of
  two positioners with arms \<open>(3, 3)\<close> at \<open>(0, 0)\<close> and \<open>(6, 0)\<close>.
\<close>

definition point_geom :: "(dpair list) geom" where
  "point_geom =
     \<lparr> shape0 = [],
       transl = (\<lambda>v. map (\<lambda>p. (fst p + fst v, snd p + snd v))),
       rotation_origin =
         (\<lambda>cs. map (\<lambda>p. (fst cs * fst p - snd cs * snd p, snd cs * fst p + fst cs * snd p))),
       rotation =
         (\<lambda>cs s. case s of [] \<Rightarrow> []
            | c # _ \<Rightarrow>
                map (\<lambda>p. (fst c + fst cs * (fst p - fst c) - snd cs * (snd p - snd c),
                          snd c + snd cs * (fst p - fst c) + fst cs * (snd p - snd c))) s),
       intersect = (\<lambda>A B. set A \<inter> set B \<noteq> {}) \<rparr>"

definition two_positioners :: "(dpair list) hardware" where
  "two_positioners =
     \<lparr> nloc = 2, npetal = 1, timestr_ = ''t'', ps_radius_ = [], ps_theta_ = [],
       locations = [1, 2],
       petal_locations = [0 \<mapsto> [1, 2]],
       loc_petal = [1 \<mapsto> 0, 2 \<mapsto> 0],
       loc_device = [1 \<mapsto> 0, 2 \<mapsto> 1],
       loc_device_type = [1 \<mapsto> ''POS'', 2 \<mapsto> ''POS''],
       loc_fiber = [1 \<mapsto> 0, 2 \<mapsto> 1],
       loc_slitblock = [1 \<mapsto> 0, 2 \<mapsto> 0],
       loc_blockfiber = [1 \<mapsto> 0, 2 \<mapsto> 1],
       loc_pos_xy_mm = [1 \<mapsto> (0, 0), 2 \<mapsto> (6, 0)],
       state = [1 \<mapsto> 0, 2 \<mapsto> 0],
       neighbors = [1 \<mapsto> [2], 2 \<mapsto> [1]],
       petal_edge = [1 \<mapsto> False, 2 \<mapsto> False],
       gfa_edge = [1 \<mapsto> False, 2 \<mapsto> False],
       loc_theta_offset = [1 \<mapsto> 0, 2 \<mapsto> 0],
       loc_theta_min = [1 \<mapsto> - 4, 2 \<mapsto> - 4],
       loc_theta_max = [1 \<mapsto> 4, 2 \<mapsto> 4],
       loc_theta_arm = [1 \<mapsto> 3, 2 \<mapsto> 3],
       loc_phi_offset = [1 \<mapsto> 0, 2 \<mapsto> 0],
       loc_phi_min = [1 \<mapsto> - 4, 2 \<mapsto> - 4],
       loc_phi_max = [1 \<mapsto> 4, 2 \<mapsto> 4],
       loc_phi_arm = [1 \<mapsto> 3, 2 \<mapsto> 3],
       loc_theta_excl = [1 \<mapsto> [(0, 0)], 2 \<mapsto> [(0, 0)]],
       loc_phi_excl = [1 \<mapsto> [(0, 0), (3, 0)], 2 \<mapsto> [(0, 0), (3, 0)]],
       loc_gfa_excl = [1 \<mapsto> [], 2 \<mapsto> []],
       loc_petal_excl = [1 \<mapsto> [], 2 \<mapsto> []],
       nfiber_petal = 500,
       focalplane_radius_deg = 165 / 100,
       neighbor_radius_mm = 1405 / 100,
       patrol_buffer_mm = 2 / 10 \<rparr>"

text \<open>
  Constructor arguments for two positioners, and arguments with a duplicated location id,
  petal indices \<open>-3\<close> and \<open>12\<close>, negative arm lengths and angle ranges whose minimum is above
  the maximum.
\<close>

definition two_args :: "(dpair list) hardware_args" where
  "two_args =
     \<lparr> arg_timestr = ''t'',
       arg_location = [2, 1],
       arg_petal = [0, 0],
       arg_device = [1, 0],
       arg_slitblock = [0, 0],
       arg_blockfiber = [1, 0],
       arg_fiber = [1, 0],
       arg_device_type = [''POS'', ''POS''],
       arg_x_mm = [6, 0],
       arg_y_mm = [0, 0],
       arg_status = [0, 0],
       arg_theta_offset = [0, 0],
       arg_theta_min = [- 200, - 200],
       arg_theta_max = [200, 200],
       arg_theta_arm = [3, 3],
       arg_phi_offset = [0, 0],
       arg_phi_min = [- 200, - 200],
       arg_phi_max = [200, 200],
       arg_phi_arm = [3, 3],
       arg_ps_radius = [],
       arg_ps_theta = [],
       arg_excl_theta = [[(0, 0)], [(0, 0)]],
       arg_excl_phi = [[(0, 0), (3, 0)], [(0, 0), (3, 0)]],
       arg_excl_gfa = [[], []],
       arg_excl_petal = [[], []] \<rparr>"

definition bad_args :: "(dpair list) hardware_args" where
  "bad_args =
     \<lparr> arg_timestr = ''t'',
       arg_location = [5, 5],
       arg_petal = [- 3, 12],
       arg_device = [0, 0],
       arg_slitblock = [0, 0],
       arg_blockfiber = [0, 0],
       arg_fiber = [0, 0],
       arg_device_type = [''POS'', ''POS''],
       arg_x_mm = [0, 100],
       arg_y_mm = [0, 0],
       arg_status = [0, 0],
       arg_theta_offset = [0, 0],
       arg_theta_min = [10, 10],
       arg_theta_max = [- 10, - 10],
       arg_theta_arm = [- 1, - 1],
       arg_phi_offset = [0, 0],
       arg_phi_min = [10, 10],
       arg_phi_max = [- 10, - 10],
       arg_phi_arm = [- 1, - 1],
       arg_ps_radius = [],
       arg_ps_theta = [],
       arg_excl_theta = [[], []],
       arg_excl_phi = [[], []],
       arg_excl_gfa = [[], []],
       arg_excl_petal = [[], []] \<rparr>"

text \<open>An OpenMP runtime that executes the iterations of a loop from the last to the first.\<close>

definition backwards_runtime :: omp_runtime where
  "backwards_runtime = \<lparr> omp_get_num_threads = 4, omp_order = (\<lambda>k n. rev [0..<n]) \<rparr>"

section \<open>Tiles: the reverse index\<close>

lemma Tiles_loop_unfold:
  "Tiles_loop ids i ord =
     (if i < length ids then Tiles_loop ids (Suc i) (ord(ids ! i \<mapsto> i)) else ord)"
  by (subst Tiles_loop.simps) (simp add: Tiles_step_def)

lemma Tiles_loop_untouched:
  "\<forall>j. i \<le> j \<and> j < length ids \<longrightarrow> ids ! j \<noteq> t \<Longrightarrow> Tiles_loop ids i ord t = ord t"
proof (induction ids i ord rule: Tiles_loop.induct)
  case (1 ids i ord)
  show ?case
  proof (cases "i < length ids")
    case True
    have "Tiles_loop ids (Suc i) (Tiles_step ids i ord) t = (Tiles_step ids i ord) t"
      using 1 True by simp
    moreover have "ids ! i \<noteq> t" using 1(2) True by simp
    ultimately show ?thesis
      using True by (subst Tiles_loop.simps) (simp add: Tiles_step_def)
  next
    case False
    then show ?thesis by (subst Tiles_loop.simps) simp
  qed
qed

lemma Tiles_loop_last:
  "i \<le> k \<Longrightarrow> k < length ids \<Longrightarrow> ids ! k = t
   \<Longrightarrow> \<forall>j. k < j \<and> j < length ids \<longrightarrow> ids ! j \<noteq> t
   \<Longrightarrow> Tiles_loop ids i ord t = Some k"
proof (induction ids i ord rule: Tiles_loop.induct)
  case (1 ids i ord)
  have lt: "i < length ids" using 1(2,3) by simp
  show ?case
  proof (cases "i = k")
    case True
    have "Tiles_loop ids (Suc i) (Tiles_step ids i ord) t = (Tiles_step ids i ord) t"
      using 1(5) True by (intro Tiles_loop_untouched) auto
    then show ?thesis
      using lt True 1(4) by (subst Tiles_loop.simps) (simp add: Tiles_step_def)
  next
    case False
    then have "Suc i \<le> k" using 1(2) by simp
    then have "Tiles_loop ids (Suc i) (Tiles_step ids i ord) t = Some k"
      using 1 lt by simp
    then show ?thesis using lt by (subst Tiles_loop.simps) simp
  qed
qed

lemma last_occurrence_exists:
  "t \<in> set ids \<Longrightarrow>
   \<exists>k<length ids. ids ! k = t \<and> (\<forall>j. k < j \<and> j < length ids \<longrightarrow> ids ! j \<noteq> t)"
proof -
  assume "t \<in> set ids"
  then obtain k0 where k0: "k0 < length ids" "ids ! k0 = t"
    by (auto simp: in_set_conv_nth)
  define P where "P = (\<lambda>k. k < length ids \<and> ids ! k = t)"
  have P0: "P k0" using k0 by (simp add: P_def)
  have bound: "\<forall>y. P y \<longrightarrow> y \<le> length ids" by (simp add: P_def)
  have G: "P (Greatest P)" using GreatestI_nat[of P k0 "length ids"] P0 bound by blast
  have M: "\<And>j. P j \<Longrightarrow> j \<le> Greatest P"
    using Greatest_le_nat[of P _ "length ids"] bound by blast
  show ?thesis
  proof (intro exI[of _ "Greatest P"] conjI allI impI)
    show "Greatest P < length ids" using G by (simp add: P_def)
    show "ids ! Greatest P = t" using G by (simp add: P_def)
    fix j assume j: "Greatest P < j \<and> j < length ids"
    show "ids ! j \<noteq> t"
    proof
      assume "ids ! j = t"
      then have "P j" using j by (simp add: P_def)
      then have "j \<le> Greatest P" by (rule M)
      then show False using j by simp
    qed
  qed
qed

text \<open>
  C10.  After construction from the parallel arrays, \<^verbatim>\<open>order\<close> maps every tile id that
  occurs in the input to the largest index at which it occurs (a later position overwrites
  an earlier one, and nothing rejects a duplicate: the constructor has no failure path and
  stores the id array as given); ids that do not occur have no entry; when the ids are
  pairwise distinct, \<^verbatim>\<open>order[id[i]] = i\<close> for every index.
\<close>

theorem Tiles_order_last_index:
  "tiles_id (Tiles hw ids ras decs obs) = ids
   \<and> (\<forall>t \<in> set ids. \<exists>k<length ids.
         tiles_order (Tiles hw ids ras decs obs) t = Some k \<and> ids ! k = t
         \<and> (\<forall>j<length ids. ids ! j = t \<longrightarrow> j \<le> k))
   \<and> (\<forall>t. t \<notin> set ids \<longrightarrow> tiles_order (Tiles hw ids ras decs obs) t = None)
   \<and> (distinct ids \<longrightarrow> (\<forall>i<length ids. tiles_order (Tiles hw ids ras decs obs) (ids ! i) = Some i))"
proof -
  have ord: "tiles_order (Tiles hw ids ras decs obs) = Tiles_loop ids 0 Map.empty"
    by (simp add: Tiles_def)
  have A: "tiles_id (Tiles hw ids ras decs obs) = ids" by (simp add: Tiles_def)
  have B: "\<exists>k<length ids. tiles_order (Tiles hw ids ras decs obs) t = Some k \<and> ids ! k = t
      \<and> (\<forall>j<length ids. ids ! j = t \<longrightarrow> j \<le> k)" if t: "t \<in> set ids" for t
  proof -
    from last_occurrence_exists[OF t] obtain k where k: "k < length ids" "ids ! k = t"
      "\<forall>j. k < j \<and> j < length ids \<longrightarrow> ids ! j \<noteq> t"
      by blast
    have "0 \<le> k" by simp
    then have "Tiles_loop ids 0 Map.empty t = Some k"
      using k by (rule Tiles_loop_last)
    moreover have "j \<le> k" if "j < length ids" "ids ! j = t" for j
    proof (rule ccontr)
      assume "\<not> j \<le> k"
      then have "k < j \<and> j < length ids" using that by simp
      then show False using k(3) that(2) by blast
    qed
    ultimately show ?thesis using k(1,2) ord by auto
  qed
  have C: "tiles_order (Tiles hw ids ras decs obs) t = None" if t: "t \<notin> set ids" for t
  proof -
    have "\<forall>j. 0 \<le> j \<and> j < length ids \<longrightarrow> ids ! j \<noteq> t" using t by auto
    then have "Tiles_loop ids 0 Map.empty t = Map.empty t" by (rule Tiles_loop_untouched)
    then show ?thesis using ord by simp
  qed
  have D: "tiles_order (Tiles hw ids ras decs obs) (ids ! i) = Some i"
    if d: "distinct ids" and i: "i < length ids" for i
  proof -
    have later: "\<forall>j. i < j \<and> j < length ids \<longrightarrow> ids ! j \<noteq> ids ! i"
      using d i by (auto simp: nth_eq_iff_index_eq)
    have "0 \<le> i" by simp
    then have "Tiles_loop ids 0 Map.empty (ids ! i) = Some i"
      using i refl later by (rule Tiles_loop_last)
    then show ?thesis using ord by simp
  qed
  show ?thesis using A B C D by blast
qed

theorem Tiles_order_last_index_witness:
  "tiles_order (Tiles () [7, 3, 7] [0, 0, 0] [0, 0, 0] [1, 1, 1]) 4 = None
   \<and> distinct [5, 9 :: int]
   \<and> tiles_order (Tiles () [5, 9] [0, 0] [0, 0] [1, 1]) 9 = Some 1"
proof -
  have d: "distinct [5, 9 :: int]" by simp
  have n: "(4::int) \<notin> set [7, 3, 7]" by simp
  have p3: "tiles_order (Tiles () [7, 3, 7] [0, 0, 0] [0, 0, 0] [1, 1, 1]) 4 = None"
    using Tiles_order_last_index [of "()" "[7, 3, 7]" "[0, 0, 0]" "[0, 0, 0]" "[1, 1, 1]"] n
    by blast
  have i: "(1::nat) < length [5, 9 :: int]" by simp
  have "tiles_order (Tiles () [5, 9] [0, 0] [0, 0] [1, 1]) ([5, 9] ! 1) = Some 1"
    using Tiles_order_last_index [of "()" "[5, 9]" "[0, 0]" "[0, 0]" "[1, 1]"] d i
    by blast
  then have p4: "tiles_order (Tiles () [5, 9] [0, 0] [0, 0] [1, 1]) 9 = Some 1" by simp
  show ?thesis using p3 d p4 by blast
qed

section \<open>Kinematics: range check, inverse kinematics, forward placement\<close>

lemma check_angle_range_flag:
  "fst (check_angle_range ang z mn mx)
     \<longleftrightarrow> (snd (check_angle_range ang z mn mx) < z + mn \<or> z + mx < snd (check_angle_range ang z mn mx))"
  by (simp add: check_angle_range_def Let_def)

lemma check_angle_range_wrap:
  "snd (check_angle_range ang z mn mx) =
     (if ang < z + mn then (if z + mx < ang + 2 * pi then ang else ang + 2 * pi)
      else if z + mx < ang then ang - 2 * pi else ang)"
  by (simp add: check_angle_range_def Let_def)

lemma thetaphi_in_range_eq:
  "thetaphi_in_range theta phi tz pz tmin pmin tmax pmax =
     (fst (check_angle_range phi pz pmin pmax) \<or> fst (check_angle_range theta tz tmin tmax),
      snd (check_angle_range theta tz tmin tmax), snd (check_angle_range phi pz pmin pmax))"
  by (simp add: thetaphi_in_range_def split: prod.splits)

lemma float_epsilon_pos: "0 < float_epsilon" by (simp add: float_epsilon_def)

text \<open>
  C4.  With \<open>a = theta_arm\<close>, \<open>b = phi_arm\<close>, \<open>offset = position - center\<close> and
  \<open>s = |offset|\<^sup>2\<close> strictly between \<open>(a - b)\<^sup>2\<close> and \<open>(a + b)\<^sup>2\<close> by more than the
  single-precision epsilon, \<^verbatim>\<open>xy_to_thetaphi\<close> computes
  \<open>\<phi> = \<pi> - acos ((a\<^sup>2 + b\<^sup>2 - s) / (2ab))\<close> and
  \<open>\<theta> = atan2 (offset.y, offset.x) - acos ((a\<^sup>2 + s - b\<^sup>2) / (2a |offset|))\<close>, passes each
  through the range check against its zero offset, and returns the wrapped angles with the
  disjunction of the two flags.  The range check adds \<open>2\<pi>\<close> to an angle below the lower limit,
  then subtracts \<open>2\<pi>\<close> from one above the upper limit, and flags the angle exactly when it
  is still outside \<open>[zero + min, zero + max]\<close>.  For every input, the function returns true
  exactly when \<open>s\<close> is outside the annulus (beyond the tolerance) or a returned angle is outside
  its range.
\<close>

theorem xy_to_thetaphi_law_of_cosines:
  fixes a b tz pz tmin pmin tmax pmax :: real and center position :: dpair
  defines "ox \<equiv> fst position - fst center"
      and "oy \<equiv> snd position - snd center"
  defines "s \<equiv> ox * ox + oy * oy"
  defines "phi \<equiv> pi - arccos ((a * a + b * b - s) / (2 * a * b))"
      and "theta \<equiv> atan2 oy ox - arccos ((a * a + s - b * b) / (2 * a * sqrt s))"
  defines "r \<equiv> xy_to_thetaphi center position a b tz pz tmin pmin tmax pmax"
  shows "(annulus_interior a b s \<longrightarrow>
           r = (fst (check_angle_range phi pz pmin pmax)
                  \<or> fst (check_angle_range theta tz tmin tmax),
                snd (check_angle_range theta tz tmin tmax),
                snd (check_angle_range phi pz pmin pmax)))
       \<and> (\<forall>ang z mn mx.
             snd (check_angle_range ang z mn mx) =
               (if ang < z + mn then (if z + mx < ang + 2 * pi then ang else ang + 2 * pi)
                else if z + mx < ang then ang - 2 * pi else ang)
             \<and> (fst (check_angle_range ang z mn mx) \<longleftrightarrow>
                  snd (check_angle_range ang z mn mx) < z + mn
                  \<or> z + mx < snd (check_angle_range ang z mn mx)))
       \<and> (fst r \<longleftrightarrow> annulus_outside a b s
           \<or> snd (snd r) < pz + pmin \<or> pz + pmax < snd (snd r)
           \<or> fst (snd r) < tz + tmin \<or> tz + tmax < fst (snd r))"
proof (intro conjI impI allI)
  have eps: "0 < float_epsilon" by (rule float_epsilon_pos)
  assume "annulus_interior a b s"
  then have "r = thetaphi_in_range theta phi tz pz tmin pmin tmax pmax"
    using eps unfolding r_def s_def ox_def oy_def annulus_interior_def theta_def phi_def
    by (simp add: xy_to_thetaphi_def Let_def sq_def sq_pair_def)
  then show "r = (fst (check_angle_range phi pz pmin pmax)
                  \<or> fst (check_angle_range theta tz tmin tmax),
                snd (check_angle_range theta tz tmin tmax),
                snd (check_angle_range phi pz pmin pmax))"
    by (simp add: thetaphi_in_range_eq)
next
  fix ang z mn mx :: real
  show "snd (check_angle_range ang z mn mx) =
               (if ang < z + mn then (if z + mx < ang + 2 * pi then ang else ang + 2 * pi)
                else if z + mx < ang then ang - 2 * pi else ang)"
    by (rule check_angle_range_wrap)
  show "fst (check_angle_range ang z mn mx) \<longleftrightarrow>
                  snd (check_angle_range ang z mn mx) < z + mn
                  \<or> z + mx < snd (check_angle_range ang z mn mx)"
    by (rule check_angle_range_flag)
next
  have inr: "fst (thetaphi_in_range t p tz pz tmin pmin tmax pmax) \<longleftrightarrow>
      snd (snd (thetaphi_in_range t p tz pz tmin pmin tmax pmax)) < pz + pmin
      \<or> pz + pmax < snd (snd (thetaphi_in_range t p tz pz tmin pmin tmax pmax))
      \<or> fst (snd (thetaphi_in_range t p tz pz tmin pmin tmax pmax)) < tz + tmin
      \<or> tz + tmax < fst (snd (thetaphi_in_range t p tz pz tmin pmin tmax pmax))" for t p
    using check_angle_range_flag[of p pz pmin pmax] check_angle_range_flag[of t tz tmin tmax]
    by (simp add: thetaphi_in_range_eq)
  show "fst r \<longleftrightarrow> annulus_outside a b s
           \<or> snd (snd r) < pz + pmin \<or> pz + pmax < snd (snd r)
           \<or> fst (snd r) < tz + tmin \<or> tz + tmax < fst (snd r)"
  proof (cases "annulus_outside a b s")
    case True
    then have "r = (True, 0, pi)"
      unfolding r_def s_def ox_def oy_def annulus_outside_def
      by (auto simp: xy_to_thetaphi_def Let_def sq_def sq_pair_def)
    then show ?thesis using True by simp
  next
    case False
    then have "\<exists>t p. r = thetaphi_in_range t p tz pz tmin pmin tmax pmax"
      unfolding r_def s_def ox_def oy_def annulus_outside_def
      by (auto simp: xy_to_thetaphi_def Let_def sq_def sq_pair_def)
    then obtain t p where "r = thetaphi_in_range t p tz pz tmin pmin tmax pmax" by blast
    then show ?thesis using False inr[of t p] by simp
  qed
qed

theorem xy_to_thetaphi_law_of_cosines_witness:
  "annulus_interior 3 3 16
   \<and> xy_to_thetaphi (0, 0) (4, 0) 3 3 0 0 (- 4) (- 4) 4 4
       = (False, - arccos (2 / 3), pi - arccos (1 / 9))"
proof -
  have ai: "annulus_interior 3 3 16"
    by (simp add: annulus_interior_def float_epsilon_def)
  have ai': "annulus_interior 3 3 ((fst (4, 0) - fst (0, 0)) * (fst (4, 0) - fst (0, 0))
      + (snd (4, 0) - snd (0::real, 0::real)) * (snd (4, 0) - snd (0::real, 0::real)))"
    using ai by simp
  have sq16: "sqrt 16 = 4" using real_sqrt_abs[of 4] by simp
  have at: "atan2 0 4 = 0" by (simp add: atan2_def)
  have pi4: "pi < 4" by (rule pi_less_4)
  have b1: "0 \<le> arccos (1 / 9)" "arccos (1 / 9) \<le> pi"
    by (simp_all add: arccos_lbound arccos_ubound)
  have b2: "0 \<le> arccos (2 / 3)" "arccos (2 / 3) \<le> pi"
    by (simp_all add: arccos_lbound arccos_ubound)
  have cp: "check_angle_range (pi - arccos (1 / 9)) 0 (- 4) 4 = (False, pi - arccos (1 / 9))"
    using b1 pi4 by (simp add: check_angle_range_def Let_def)
  have ct: "check_angle_range (- arccos (2 / 3)) 0 (- 4) 4 = (False, - arccos (2 / 3))"
    using b2 pi4 by (simp add: check_angle_range_def Let_def)
  have "xy_to_thetaphi (0, 0) (4, 0) 3 3 0 0 (- 4) (- 4) 4 4
       = (False, - arccos (2 / 3), pi - arccos (1 / 9))"
    using xy_to_thetaphi_law_of_cosines [where a = 3 and b = 3 and position = "(4, 0)"
        and center = "(0, 0)" and tz = 0 and pz = 0 and tmin = "- 4" and pmin = "- 4"
        and tmax = 4 and pmax = 4] ai'
    by (simp add: sq16 at cp ct)
  then show ?thesis using ai by simp
qed

text \<open>
  C8.  When the range check flags \<open>\<phi>\<close> or \<open>\<theta>\<close> (the angle is outside the location's range
  even after the \<open>\<plusminus>2\<pi>\<close> wrap), \<^verbatim>\<open>move_positioner_thetaphi\<close> returns true and leaves the
  \<open>\<theta>\<close>-arm and \<open>\<phi>\<close>-arm shapes exactly as they were on entry.
\<close>

theorem move_positioner_thetaphi_out_of_range:
  assumes "fst (check_angle_range phi phi_zero phi_min phi_max)
           \<or> fst (check_angle_range theta theta_zero theta_min theta_max)"
  shows "move_positioner_thetaphi G shptheta shpphi center theta phi
           theta_arm phi_arm theta_zero phi_zero theta_min phi_min theta_max phi_max
         = (True, shptheta, shpphi)"
  using assms by (auto simp: move_positioner_thetaphi_def Let_def split: prod.splits)

theorem move_positioner_thetaphi_out_of_range_witness:
  "fst (check_angle_range 0 0 1 2)
   \<and> move_positioner_thetaphi
        \<lparr> shape0 = 0, transl = (\<lambda>v s. s + 1), rotation_origin = (\<lambda>v s. s + 2), rotation = (\<lambda>v s. s + 3),
          intersect = (\<lambda>a b. a = b) \<rparr>
        (10::nat) 20 (0, 0) 0 0 3 3 0 0 1 1 2 2 = (True, 10, 20)"
proof -
  have "2 < 2 * pi" using pi_ge_two by simp
  then have h: "fst (check_angle_range 0 0 1 2)"
    by (simp add: check_angle_range_def Let_def)
  then have h2: "fst (check_angle_range 0 0 1 2) \<or> fst (check_angle_range 0 0 1 2)" by simp
  show ?thesis
    using h move_positioner_thetaphi_out_of_range [OF h2] by simp
qed

section \<open>Pairwise collision\<close>

lemma ebind_Inr [simp]: "ebind (Inr v) f = f v" by (simp add: ebind_def)
lemma ebind_Inl [simp]: "ebind (Inl e) f = Inl e" by (simp add: ebind_def)

lemma loc_position_xy_known:
  "loc_position_xy G hw loc xy = Inr r \<Longrightarrow>
     \<exists>a b. map_at (loc_theta_excl hw) loc = Inr a \<and> map_at (loc_phi_excl hw) loc = Inr b"
  by (auto simp: loc_position_xy_def loc_lookup_def ebind_def split: sum.splits)

text \<open>
  C6.  For two locations of the hardware (both placements are defined), \<^verbatim>\<open>collide_xy\<close>
  returns true when either placement is unreachable and otherwise the disjunction of exactly
  three intersection tests: \<open>\<phi>\<^sub>1\<close> with \<open>\<phi>\<^sub>2\<close>, \<open>\<theta>\<^sub>1\<close> with \<open>\<phi>\<^sub>2\<close>, \<open>\<theta>\<^sub>2\<close> with \<open>\<phi>\<^sub>1\<close>; the two
  \<open>\<theta>\<close> shapes are never tested against each other.  When the intersection test gives the same
  answer for the two \<open>\<phi>\<close> shapes in either order, \<^verbatim>\<open>collide_xy(a, xa, b, xb)\<close> equals
  \<^verbatim>\<open>collide_xy(b, xb, a, xa)\<close>.
\<close>

theorem collide_xy_symmetric:
  assumes p1: "loc_position_xy G hw a xa = Inr (failed1, shptheta1, shpphi1)"
      and p2: "loc_position_xy G hw b xb = Inr (failed2, shptheta2, shpphi2)"
  shows "collide_xy G hw a xa b xb =
           Inr (failed1 \<or> failed2 \<or> intersect G shpphi1 shpphi2
                \<or> intersect G shptheta1 shpphi2 \<or> intersect G shptheta2 shpphi1)
         \<and> (intersect G shpphi1 shpphi2 = intersect G shpphi2 shpphi1
              \<longrightarrow> collide_xy G hw a xa b xb = collide_xy G hw b xb a xa)"
proof -
  obtain ea eb where a: "map_at (loc_theta_excl hw) a = Inr ea" "map_at (loc_phi_excl hw) a = Inr eb"
    using loc_position_xy_known[OF p1] by blast
  obtain fa fb where b: "map_at (loc_theta_excl hw) b = Inr fa" "map_at (loc_phi_excl hw) b = Inr fb"
    using loc_position_xy_known[OF p2] by blast
  have ab: "collide_xy G hw a xa b xb =
           Inr (failed1 \<or> failed2 \<or> intersect G shpphi1 shpphi2
                \<or> intersect G shptheta1 shpphi2 \<or> intersect G shptheta2 shpphi1)"
    by (simp add: collide_xy_def a b p1 p2)
  have ba: "collide_xy G hw b xb a xa =
           Inr (failed2 \<or> failed1 \<or> intersect G shpphi2 shpphi1
                \<or> intersect G shptheta2 shpphi1 \<or> intersect G shptheta1 shpphi2)"
    by (simp add: collide_xy_def a b p1 p2)
  show ?thesis using ab ba by auto
qed

lemma atan2_zero_pos: "0 < x \<Longrightarrow> atan2 0 x = 0" by (simp add: atan2_def)

lemma place1: "loc_position_xy point_geom two_positioners 1 (6, 0)
   = Inr (False, [(0, 0)], [(3, 0), (6, 0)])"
proof -
  have pi4: "pi < 4" by (rule pi_less_4)
  have c0: "check_angle_range 0 0 (- 4) 4 = (False, 0)"
    using pi4 by (simp add: check_angle_range_def Let_def)
  have x: "xy_to_thetaphi (0, 0) (6, 0) 3 3 0 0 (- 4) (- 4) 4 4 = (False, 0, 0)"
    by (simp add: xy_to_thetaphi_def Let_def sq_def sq_pair_def float_epsilon_def
        atan2_zero_pos thetaphi_in_range_def c0)
  show ?thesis
    by (simp add: loc_position_xy_def loc_lookup_def map_at_def two_positioners_def
        move_positioner_xy_def x move_positioner_thetaphi_def c0 point_geom_def)
qed

lemma place2: "loc_position_xy point_geom two_positioners 2 (12, 0)
   = Inr (False, [(6, 0)], [(9, 0), (12, 0)])"
proof -
  have pi4: "pi < 4" by (rule pi_less_4)
  have c0: "check_angle_range 0 0 (- 4) 4 = (False, 0)"
    using pi4 by (simp add: check_angle_range_def Let_def)
  have x: "xy_to_thetaphi (6, 0) (12, 0) 3 3 0 0 (- 4) (- 4) 4 4 = (False, 0, 0)"
    by (simp add: xy_to_thetaphi_def Let_def sq_def sq_pair_def float_epsilon_def
        atan2_zero_pos thetaphi_in_range_def c0)
  show ?thesis
    by (simp add: loc_position_xy_def loc_lookup_def map_at_def two_positioners_def
        move_positioner_xy_def x move_positioner_thetaphi_def c0 point_geom_def)
qed

theorem collide_xy_symmetric_witness:
  "collide_xy point_geom two_positioners 1 (6, 0) 2 (12, 0) = Inr True
   \<and> collide_xy point_geom two_positioners 2 (12, 0) 1 (6, 0) = Inr True"
proof -
  have i: "intersect point_geom [(3, 0), (6, 0)] [(9, 0), (12, 0)]
         = intersect point_geom [(9, 0), (12, 0)] [(3, 0), (6, 0)]"
    by (simp add: point_geom_def)
  have j: "intersect point_geom [(6, 0)] [(3, 0), (6, 0)]"
    by (simp add: point_geom_def)
  show ?thesis
    using collide_xy_symmetric [OF place1 place2] i j by metis
qed

section \<open>The vectorised projections\<close>

lemma vec_at_in [simp]: "i < length v \<Longrightarrow> vec_at v i = Inr (v ! i)"
  by (simp add: vec_at_def)

lemma length_resize_vec [simp]: "length (resize_vec n d v) = n"
  by (simp add: resize_vec_def)

lemma map_upd_cell:
  "length r = n \<Longrightarrow>
   map (\<lambda>i. if i \<in> S then f i else r[t := f t] ! i) [0..<n]
   = map (\<lambda>i. if i \<in> insert t S then f i else r ! i) [0..<n]"
  by (rule map_cong) (auto simp: nth_list_update)

lemma efold_cellwise:
  assumes body: "\<And>t r. t < n \<Longrightarrow> length r = n \<Longrightarrow> body t r = Inr (r[t := f t])"
  shows "length r = n \<Longrightarrow> set sched \<subseteq> {0..<n} \<Longrightarrow>
         efold body sched r = Inr (map (\<lambda>i. if i \<in> set sched then f i else r ! i) [0..<n])"
proof (induction sched arbitrary: r)
  case Nil
  then show ?case using map_nth[of r] by simp
next
  case (Cons t ts)
  have t: "t < n" and ts: "set ts \<subseteq> {0..<n}" using Cons.prems(2) by simp_all
  have "efold body (t # ts) r = efold body ts (r[t := f t])"
    using body[OF t Cons.prems(1)] by simp
  also have "\<dots> = Inr (map (\<lambda>i. if i \<in> set ts then f i else r[t := f t] ! i) [0..<n])"
    using Cons.prems(1) ts by (intro Cons.IH) simp_all
  also have "\<dots> = Inr (map (\<lambda>i. if i \<in> set (t # ts) then f i else r ! i) [0..<n])"
    using map_upd_cell[OF Cons.prems(1), of "set ts" f t] by simp
  finally show ?case .
qed

lemma ofold_cellwise:
  assumes body: "\<And>t r. t < n \<Longrightarrow> length r = n \<Longrightarrow>
      body t r = (case g t of None \<Rightarrow> None | Some v \<Rightarrow> Some (Inr (r[t := v])))"
  shows "length r = n \<Longrightarrow> set sched \<subseteq> {0..<n} \<Longrightarrow>
         ofold body sched r =
           (if None \<in> g ` set sched then None
            else Some (Inr (map (\<lambda>i. if i \<in> set sched then the (g i) else r ! i) [0..<n])))"
proof (induction sched arbitrary: r)
  case Nil
  then show ?case using map_nth[of r] by simp
next
  case (Cons t ts)
  have t: "t < n" and ts: "set ts \<subseteq> {0..<n}" using Cons.prems(2) by simp_all
  show ?case
  proof (cases "g t")
    case None
    then have "body t r = None" using body[OF t Cons.prems(1)] by simp
    then show ?thesis using None by (simp add: image_iff)
  next
    case (Some v)
    have v: "v = the (g t)" using Some by simp
    have step: "body t r = Some (Inr (r[t := the (g t)]))"
      using body[OF t Cons.prems(1)] Some by simp
    have "ofold body (t # ts) r = ofold body ts (r[t := the (g t)])"
      using step by simp
    also have "\<dots> = (if None \<in> g ` set ts then None
            else Some (Inr (map (\<lambda>i. if i \<in> set ts then the (g i) else r[t := the (g t)] ! i) [0..<n])))"
      using Cons.prems(1) ts by (intro Cons.IH) simp_all
    also have "\<dots> = (if None \<in> g ` set ts then None
            else Some (Inr (map (\<lambda>i. if i \<in> set (t # ts) then the (g i) else r ! i) [0..<n])))"
      using map_upd_cell[OF Cons.prems(1), of "set ts" "\<lambda>i. the (g i)" t] by simp
    also have "\<dots> = (if None \<in> g ` set (t # ts) then None
            else Some (Inr (map (\<lambda>i. if i \<in> set (t # ts) then the (g i) else r ! i) [0..<n])))"
      using Some by simp
    finally show ?thesis .
  qed
qed

lemma those_map_the:
  "those os = (if None \<in> set os then None else Some (map the os))"
  by (induction os) (auto split: option.splits)

lemma map_upt_zip:
  "length ys = length xs \<Longrightarrow> map (\<lambda>i. f (xs ! i) (ys ! i)) [0..<length xs] = map2 f xs ys"
  by (rule nth_equalityI) simp_all


lemma radec2xy_multi_body_cell:
  "length ra = n \<Longrightarrow> length dec = n \<Longrightarrow> t < n \<Longrightarrow> length r = n \<Longrightarrow>
   radec2xy_multi_body tra tdec tth ra dec t r
     = Inr (r[t := radec2xy tra tdec tth (ra ! t) (dec ! t)])"
  by (simp add: radec2xy_multi_body_def)

lemma xy2radec_multi_body_cell:
  "length xs = n \<Longrightarrow> length ys = n \<Longrightarrow> t < n \<Longrightarrow> length r = n \<Longrightarrow>
   xy2radec_multi_body tra tdec tth xs ys t r
     = (case xy2radec tra tdec tth (xs ! t) (ys ! t) of
          None \<Rightarrow> None | Some v \<Rightarrow> Some (Inr (r[t := v])))"
  by (simp add: xy2radec_multi_body_def split: option.splits)

lemma radec2xy_multi_eq:
  assumes rt: "omp_runs_each_once rt" and len: "length dec = length ra"
  shows "radec2xy_multi rt tilera tiledec tiletheta ra dec xy threads
           = Inr (map2 (radec2xy tilera tiledec tiletheta) ra dec)"
proof -
  define n where "n = length ra"
  define sched where "sched = omp_order rt (run_threads_of rt threads) n"
  define r0 where "r0 = resize_vec n (0::real, 0::real) xy"
  define f where "f = (\<lambda>i. radec2xy tilera tiledec tiletheta (ra ! i) (dec ! i))"
  have s: "set sched = {0..<n}"
    using rt by (simp add: omp_runs_each_once_def sched_def)
  have l0: "length r0 = n" by (simp add: r0_def)
  have body: "\<And>t r. t < n \<Longrightarrow> length r = n \<Longrightarrow>
      radec2xy_multi_body tilera tiledec tiletheta ra dec t r = Inr (r[t := f t])"
    unfolding f_def using len n_def by (intro radec2xy_multi_body_cell) simp_all
  have "radec2xy_multi rt tilera tiledec tiletheta ra dec xy threads
      = efold (radec2xy_multi_body tilera tiledec tiletheta ra dec) sched r0"
    by (simp add: radec2xy_multi_def omp_for_def Let_def sched_def r0_def n_def)
  also have "\<dots> = Inr (map (\<lambda>i. if i \<in> set sched then f i else r0 ! i) [0..<n])"
    using body l0 s by (intro efold_cellwise) simp_all
  also have "map (\<lambda>i. if i \<in> set sched then f i else r0 ! i) [0..<n] = map f [0..<n]"
    using s by (intro map_cong) simp_all
  also have "map f [0..<n] = map2 (radec2xy tilera tiledec tiletheta) ra dec"
    unfolding f_def n_def using len by (rule map_upt_zip)
  finally show ?thesis .
qed

lemma xy2radec_multi_eq:
  assumes rt: "omp_runs_each_once rt" and len: "length y_mm = length x_mm"
  shows "xy2radec_multi rt tilera tiledec tiletheta x_mm y_mm radec threads
           = map_option Inr (those (map2 (xy2radec tilera tiledec tiletheta) x_mm y_mm))"
proof -
  define n where "n = length x_mm"
  define sched where "sched = omp_order rt (run_threads_of rt threads) n"
  define r0 where "r0 = resize_vec n (0::real, 0::real) radec"
  define g where "g = (\<lambda>i. xy2radec tilera tiledec tiletheta (x_mm ! i) (y_mm ! i))"
  have s: "set sched = {0..<n}"
    using rt by (simp add: omp_runs_each_once_def sched_def)
  have l0: "length r0 = n" by (simp add: r0_def)
  have body: "\<And>t r. t < n \<Longrightarrow> length r = n \<Longrightarrow>
      xy2radec_multi_body tilera tiledec tiletheta x_mm y_mm t r
        = (case g t of None \<Rightarrow> None | Some v \<Rightarrow> Some (Inr (r[t := v])))"
    unfolding g_def using len n_def by (intro xy2radec_multi_body_cell) simp_all
  have os: "map2 (xy2radec tilera tiledec tiletheta) x_mm y_mm = map g [0..<n]"
    unfolding g_def n_def using len by (rule map_upt_zip[symmetric])
  have "xy2radec_multi rt tilera tiledec tiletheta x_mm y_mm radec threads
      = ofold (xy2radec_multi_body tilera tiledec tiletheta x_mm y_mm) sched r0"
    by (simp add: xy2radec_multi_def Let_def sched_def r0_def n_def)
  also have "\<dots> = (if None \<in> g ` set sched then None
            else Some (Inr (map (\<lambda>i. if i \<in> set sched then the (g i) else r0 ! i) [0..<n])))"
    using body l0 s by (intro ofold_cellwise) simp_all
  also have "map (\<lambda>i. if i \<in> set sched then the (g i) else r0 ! i) [0..<n]
      = map the (map g [0..<n])"
    using s by simp
  also have "g ` set sched = set (map g [0..<n])" using s by simp
  finally show ?thesis
    unfolding os by (simp add: those_map_the)
qed

text \<open>
  C7.  Whatever order the runtime executes the iterations in (each exactly once) and
  whatever the \<^verbatim>\<open>threads\<close> argument, \<^verbatim>\<open>radec2xy_multi\<close> on coordinate vectors of equal length
  leaves in \<^verbatim>\<open>xy\<close> the vector whose element \<open>t\<close> is \<^verbatim>\<open>radec2xy\<close> of element \<open>t\<close> of the
  input, of the same length as the input, and \<^verbatim>\<open>xy2radec_multi\<close> likewise leaves the
  elementwise results of \<^verbatim>\<open>xy2radec\<close> (and returns exactly when every one of these calls
  returns).  The right-hand sides mention neither the runtime nor \<^verbatim>\<open>threads\<close>.
\<close>

theorem multi_is_elementwise:
  assumes rt: "omp_runs_each_once rt"
  shows "(length dec = length ra \<longrightarrow>
            radec2xy_multi rt tilera tiledec tiletheta ra dec xy threads
              = Inr (map2 (radec2xy tilera tiledec tiletheta) ra dec))
         \<and> (length y_mm = length x_mm \<longrightarrow>
            xy2radec_multi rt tilera tiledec tiletheta x_mm y_mm radec threads
              = map_option Inr (those (map2 (xy2radec tilera tiledec tiletheta) x_mm y_mm)))"
  using radec2xy_multi_eq[OF rt] xy2radec_multi_eq[OF rt] by blast

theorem multi_is_elementwise_witness:
  "omp_runs_each_once backwards_runtime
   \<and> radec2xy_multi backwards_runtime 0 0 0 [10, 20] [1, 2] [] 3
       = Inr [radec2xy 0 0 0 10 1, radec2xy 0 0 0 20 2]
   \<and> xy2radec_multi backwards_runtime 0 0 0 [5] [6] [(1, 1), (2, 2)] 0
       = map_option Inr (those [xy2radec 0 0 0 5 6])"
proof -
  have rt: "omp_runs_each_once backwards_runtime"
    by (simp add: omp_runs_each_once_def backwards_runtime_def)
  show ?thesis
    using rt multi_is_elementwise [OF rt, where ra = "[10, 20]" and dec = "[1, 2]"
        and tilera = 0 and tiledec = 0 and tiletheta = 0 and xy = "[]" and threads = 3]
      multi_is_elementwise [OF rt, where x_mm = "[5]" and y_mm = "[6]"
        and tilera = 0 and tiledec = 0 and tiletheta = 0 and radec = "[(1, 1), (2, 2)]"
        and threads = 0]
    by simp
qed

section \<open>Construction of the hardware object: what it accepts, and the neighbor graph\<close>

lemma ebind_Inr_iff: "ebind m f = Inr y \<longleftrightarrow> (\<exists>v. m = Inr v \<and> f v = Inr y)"
  by (cases m) (simp_all add: ebind_def)

lemma vec_at_Inr_iff: "vec_at v i = Inr x \<longleftrightarrow> i < length v \<and> x = v ! i"
  by (auto simp: vec_at_def)

lemma map_at_Inr_iff: "map_at m k = Inr v \<longleftrightarrow> m k = Some v"
  by (simp add: map_at_def split: option.splits)

lemma Hardware_row_fields:
  assumes "Hardware_row a i hw = Inr hw'"
  shows "i < length (arg_location a)"
    and "locations hw' = locations hw @ [arg_location a ! i]"
    and "neighbors hw' = (neighbors hw)(arg_location a ! i \<mapsto> [])"
    and "nloc hw' = nloc hw"
    and "dom (loc_gfa_excl hw') = insert (arg_location a ! i) (dom (loc_gfa_excl hw))"
    and "dom (loc_petal_excl hw') = insert (arg_location a ! i) (dom (loc_petal_excl hw))"
    and "loc_petal hw' = (loc_petal hw)(arg_location a ! i \<mapsto> arg_petal a ! i)"
    and "loc_theta_arm hw' = (loc_theta_arm hw)(arg_location a ! i \<mapsto> arg_theta_arm a ! i)"
    and "loc_phi_arm hw' = (loc_phi_arm hw)(arg_location a ! i \<mapsto> arg_phi_arm a ! i)"
    and "loc_theta_min hw' =
           (loc_theta_min hw)(arg_location a ! i \<mapsto> arg_theta_min a ! i * pi / 180)"
    and "loc_theta_max hw' =
           (loc_theta_max hw)(arg_location a ! i \<mapsto> arg_theta_max a ! i * pi / 180)"
  using assms
  by (auto simp: Hardware_row_def ebind_Inr_iff vec_at_Inr_iff)

lemma Hardware_row_fields2:
  assumes "Hardware_row a i hw = Inr hw'"
  shows "loc_device hw' = (loc_device hw)(arg_location a ! i \<mapsto> arg_device a ! i)"
    and "loc_device_type hw' = (loc_device_type hw)(arg_location a ! i \<mapsto> arg_device_type a ! i)"
    and "loc_fiber hw' = (loc_fiber hw)(arg_location a ! i \<mapsto> arg_fiber a ! i)"
    and "loc_slitblock hw' = (loc_slitblock hw)(arg_location a ! i \<mapsto> arg_slitblock a ! i)"
    and "loc_blockfiber hw' = (loc_blockfiber hw)(arg_location a ! i \<mapsto> arg_blockfiber a ! i)"
    and "loc_pos_xy_mm hw' =
           (loc_pos_xy_mm hw)(arg_location a ! i \<mapsto> (arg_x_mm a ! i, arg_y_mm a ! i))"
    and "state hw' = (state hw)(arg_location a ! i \<mapsto> arg_status a ! i)"
    and "loc_theta_offset hw' =
           (loc_theta_offset hw)(arg_location a ! i \<mapsto> arg_theta_offset a ! i * pi / 180)"
    and "loc_phi_offset hw' =
           (loc_phi_offset hw)(arg_location a ! i \<mapsto> arg_phi_offset a ! i * pi / 180)"
    and "loc_phi_min hw' =
           (loc_phi_min hw)(arg_location a ! i \<mapsto> arg_phi_min a ! i * pi / 180)"
    and "loc_phi_max hw' =
           (loc_phi_max hw)(arg_location a ! i \<mapsto> arg_phi_max a ! i * pi / 180)"
    and "loc_theta_excl hw' = (loc_theta_excl hw)(arg_location a ! i \<mapsto> arg_excl_theta a ! i)"
    and "loc_phi_excl hw' = (loc_phi_excl hw)(arg_location a ! i \<mapsto> arg_excl_phi a ! i)"
  using assms
  by (auto simp: Hardware_row_def ebind_Inr_iff vec_at_Inr_iff)

lemma Hardware_rows_fields:
  "efold (Hardware_row a) is hw = Inr hw' \<Longrightarrow>
     set is \<subseteq> {0..<length (arg_location a)}
     \<and> locations hw' = locations hw @ map (\<lambda>i. arg_location a ! i) is
     \<and> neighbors hw' = (\<lambda>l. if l \<in> (\<lambda>i. arg_location a ! i) ` set is then Some []
                              else neighbors hw l)
     \<and> nloc hw' = nloc hw
     \<and> dom (loc_gfa_excl hw') = dom (loc_gfa_excl hw) \<union> (\<lambda>i. arg_location a ! i) ` set is
     \<and> dom (loc_petal_excl hw') = dom (loc_petal_excl hw) \<union> (\<lambda>i. arg_location a ! i) ` set is"
proof (induction "is" arbitrary: hw)
  case Nil
  then show ?case by simp
next
  case (Cons i "is")
  from Cons.prems obtain hw1 where r: "Hardware_row a i hw = Inr hw1"
    and rest: "efold (Hardware_row a) is hw1 = Inr hw'"
    by (auto simp: ebind_Inr_iff)
  note f = Hardware_row_fields(1-6)[OF r]
  note ih = Cons.IH[OF rest]
  show ?case using f ih by (auto simp: fun_eq_iff)
qed

lemma Hardware_rows_store:
  assumes step: "\<And>i hw hw'. Hardware_row a i hw = Inr hw' \<Longrightarrow>
                   sel hw' = (sel hw)(arg_location a ! i \<mapsto> val i)"
  shows "efold (Hardware_row a) is hw = Inr hw' \<Longrightarrow>
         sel hw' = sel hw ++ map_of (rev (map (\<lambda>i. (arg_location a ! i, val i)) is))"
proof (induction "is" arbitrary: hw)
  case Nil
  then show ?case by simp
next
  case (Cons i "is")
  from Cons.prems obtain hw1 where r: "Hardware_row a i hw = Inr hw1"
    and rest: "efold (Hardware_row a) is hw1 = Inr hw'"
    by (auto simp: ebind_Inr_iff)
  have "sel hw' = (sel hw)(arg_location a ! i \<mapsto> val i)
                    ++ map_of (rev (map (\<lambda>i. (arg_location a ! i, val i)) is))"
    unfolding step[OF r, symmetric] by (rule Cons.IH[OF rest])
  then show ?case by (simp add: map_add_def fun_eq_iff split: option.splits)
qed

lemma map_of_rev_last:
  "i < n \<Longrightarrow> \<forall>j. i < j \<and> j < n \<longrightarrow> key j \<noteq> key i \<Longrightarrow>
   map_of (rev (map (\<lambda>i. (key i, val i)) [0..<n])) (key i) = Some (val i)"
proof (induction n)
  case 0
  then show ?case by simp
next
  case (Suc n)
  show ?case
  proof (cases "i = n")
    case True
    then show ?thesis by simp
  next
    case False
    then have i: "i < n" using Suc.prems(1) by simp
    then have "key n \<noteq> key i" using Suc.prems(2) by simp
    moreover have "map_of (rev (map (\<lambda>i. (key i, val i)) [0..<n])) (key i) = Some (val i)"
      using i Suc.prems(2) by (intro Suc.IH) simp_all
    ultimately show ?thesis by simp
  qed
qed

lemma Hardware_row_ok:
  assumes "i < length (arg_location a)" "i < length (arg_petal a)" "i < length (arg_device a)"
    "i < length (arg_device_type a)" "i < length (arg_fiber a)" "i < length (arg_slitblock a)"
    "i < length (arg_blockfiber a)" "i < length (arg_x_mm a)" "i < length (arg_y_mm a)"
    "i < length (arg_status a)" "i < length (arg_theta_offset a)" "i < length (arg_theta_min a)"
    "i < length (arg_theta_max a)" "i < length (arg_theta_arm a)" "i < length (arg_phi_offset a)"
    "i < length (arg_phi_min a)" "i < length (arg_phi_max a)" "i < length (arg_phi_arm a)"
    "i < length (arg_excl_theta a)" "i < length (arg_excl_phi a)" "i < length (arg_excl_gfa a)"
    "i < length (arg_excl_petal a)"
  shows "\<exists>hw'. Hardware_row a i hw = Inr hw'"
  using assms by (simp add: Hardware_row_def vec_at_def ebind_def)

lemma neighbors_pair_eq:
  "neighbors_pair x y hw =
     hw\<lparr> neighbors := nb_step (locations hw) (loc_pos_xy_mm hw) (neighbor_radius_mm hw) (x, y)
                          (neighbors hw) \<rparr>"
  by (simp add: neighbors_pair_def nb_step_def Let_def)

lemma fold_neighbors_pair:
  "fold (neighbors_pair x) ys hw =
     hw\<lparr> neighbors := fold (nb_step (locations hw) (loc_pos_xy_mm hw) (neighbor_radius_mm hw))
                          (map (Pair x) ys) (neighbors hw) \<rparr>"
proof (induction ys arbitrary: hw)
  case Nil
  then show ?case by simp
next
  case (Cons y ys)
  have "fold (neighbors_pair x) (y # ys) hw = fold (neighbors_pair x) ys (neighbors_pair x y hw)"
    by simp
  also have "\<dots> = (neighbors_pair x y hw)\<lparr> neighbors :=
      fold (nb_step (locations (neighbors_pair x y hw)) (loc_pos_xy_mm (neighbors_pair x y hw))
              (neighbor_radius_mm (neighbors_pair x y hw)))
         (map (Pair x) ys) (neighbors (neighbors_pair x y hw)) \<rparr>"
    by (rule Cons.IH)
  also have "\<dots> = hw\<lparr> neighbors :=
      fold (nb_step (locations hw) (loc_pos_xy_mm hw) (neighbor_radius_mm hw))
         (map (Pair x) (y # ys)) (neighbors hw) \<rparr>"
    by (simp add: neighbors_pair_eq)
  finally show ?case .
qed

lemma fold_fold_neighbors_pair:
  "fold (\<lambda>x. fold (neighbors_pair x) [x + 1..<n]) xs hw =
     hw\<lparr> neighbors := fold (nb_step (locations hw) (loc_pos_xy_mm hw) (neighbor_radius_mm hw))
                          (concat (map (\<lambda>x. map (Pair x) [x + 1..<n]) xs)) (neighbors hw) \<rparr>"
proof (induction xs arbitrary: hw)
  case Nil
  then show ?case by simp
next
  case (Cons x xs)
  define hw1 where "hw1 = fold (neighbors_pair x) [x + 1..<n] hw"
  have hw1: "hw1 = hw\<lparr> neighbors :=
      fold (nb_step (locations hw) (loc_pos_xy_mm hw) (neighbor_radius_mm hw))
         (map (Pair x) [x + 1..<n]) (neighbors hw) \<rparr>"
    unfolding hw1_def by (rule fold_neighbors_pair)
  have "fold (\<lambda>x. fold (neighbors_pair x) [x + 1..<n]) (x # xs) hw
      = fold (\<lambda>x. fold (neighbors_pair x) [x + 1..<n]) xs hw1"
    by (simp add: hw1_def)
  also have "\<dots> = hw1\<lparr> neighbors :=
      fold (nb_step (locations hw1) (loc_pos_xy_mm hw1) (neighbor_radius_mm hw1))
         (concat (map (\<lambda>x. map (Pair x) [x + 1..<n]) xs)) (neighbors hw1) \<rparr>"
    by (rule Cons.IH)
  also have "\<dots> = hw\<lparr> neighbors :=
      fold (nb_step (locations hw) (loc_pos_xy_mm hw) (neighbor_radius_mm hw))
         (concat (map (\<lambda>x. map (Pair x) [x + 1..<n]) (x # xs))) (neighbors hw) \<rparr>"
    by (simp add: hw1)
  finally show ?case .
qed

lemma Hardware_neighbors_eq:
  "Hardware_neighbors hw =
     hw\<lparr> neighbors := fold (nb_step (locations hw) (loc_pos_xy_mm hw) (neighbor_radius_mm hw))
                          (index_pairs (nloc hw)) (neighbors hw) \<rparr>"
  unfolding Hardware_neighbors_def index_pairs_def by (rule fold_fold_neighbors_pair)

lemma set_index_pairs: "set (index_pairs n) = {(x, y). x < y \<and> y < n}"
proof -
  have "(a, b) \<in> set (index_pairs n) \<longleftrightarrow> a < b \<and> b < n" for a b
  proof
    assume "(a, b) \<in> set (index_pairs n)"
    then show "a < b \<and> b < n" by (auto simp: index_pairs_def)
  next
    assume ab: "a < b \<and> b < n"
    then have "a \<in> {0..<n}" "(a, b) \<in> Pair a ` {Suc a..<n}" by auto
    then show "(a, b) \<in> set (index_pairs n)" by (auto simp: index_pairs_def)
  qed
  then show ?thesis by auto
qed

lemma map_index_push_back_at:
  "map_index (push_back_at N k v) a = (if a = k then map_index N k @ [v] else map_index N a)"
  by (simp add: push_back_at_def map_index_def)

lemma dom_push_back_at: "dom (push_back_at N k v) = insert k (dom N)"
  by (simp add: push_back_at_def)

lemma nb_step_set:
  "set (map_index (nb_step L P r xy N) a) =
     set (map_index N a)
     \<union> {b. fbg_dist (pos_index P (L ! fst xy)) (pos_index P (L ! snd xy)) \<le> r
            \<and> ((L ! fst xy = a \<and> L ! snd xy = b) \<or> (L ! snd xy = a \<and> L ! fst xy = b))}"
  by (auto simp: nb_step_def map_index_push_back_at)

lemma fold_nb_step_set:
  "set (map_index (fold (nb_step L P r) ps N) a) =
     set (map_index N a)
     \<union> {b. \<exists>xy \<in> set ps. fbg_dist (pos_index P (L ! fst xy)) (pos_index P (L ! snd xy)) \<le> r
            \<and> ((L ! fst xy = a \<and> L ! snd xy = b) \<or> (L ! snd xy = a \<and> L ! fst xy = b))}"
proof (induction ps arbitrary: N)
  case Nil
  then show ?case by simp
next
  case (Cons p ps)
  show ?case
    unfolding fold_simps Cons.IH nb_step_set by auto
qed

lemma fold_nb_step_dom:
  "\<forall>xy \<in> set ps. L ! fst xy \<in> D \<and> L ! snd xy \<in> D \<Longrightarrow> dom N = D \<Longrightarrow>
   dom (fold (nb_step L P r) ps N) = D"
proof (induction ps arbitrary: N)
  case Nil
  then show ?case by simp
next
  case (Cons p ps)
  have "dom (nb_step L P r p N) = D"
    using Cons.prems by (auto simp: nb_step_def dom_push_back_at)
  then show ?case using Cons by simp
qed

lemma int32_add_Inr_iff:
  "int32_add x y = Inr s \<longleftrightarrow> s = x + y \<and> - 2147483648 \<le> x + y \<and> x + y \<le> 2147483647"
  by (auto simp: int32_add_def)

lemma petal_csang_ok:
  assumes "- 2147483648 \<le> pt" "pt \<le> 2147483640"
  shows "\<exists>cs. petal_csang pt = Inr cs"
proof -
  have "int32_add 7 pt = Inr (7 + pt)" using assms by (simp add: int32_add_def)
  then show ?thesis by (simp add: petal_csang_def Let_def)
qed

lemma Hardware_rotate_fields:
  assumes "Hardware_rotate G lid hw = Inr hw'"
  shows "neighbors hw' = neighbors hw" and "locations hw' = locations hw"
    and "loc_pos_xy_mm hw' = loc_pos_xy_mm hw" and "neighbor_radius_mm hw' = neighbor_radius_mm hw"
    and "loc_petal hw' = loc_petal hw" and "loc_theta_arm hw' = loc_theta_arm hw"
    and "loc_phi_arm hw' = loc_phi_arm hw" and "loc_theta_min hw' = loc_theta_min hw"
    and "loc_theta_max hw' = loc_theta_max hw"
  using assms
  by (auto simp: Hardware_rotate_def Let_def ebind_Inr_iff)

lemma Hardware_rotate_fields2:
  assumes "Hardware_rotate G lid hw = Inr hw'"
  shows "loc_device hw' = loc_device hw" and "loc_device_type hw' = loc_device_type hw"
    and "loc_fiber hw' = loc_fiber hw" and "loc_slitblock hw' = loc_slitblock hw"
    and "loc_blockfiber hw' = loc_blockfiber hw" and "state hw' = state hw"
    and "loc_theta_offset hw' = loc_theta_offset hw" and "loc_phi_offset hw' = loc_phi_offset hw"
    and "loc_phi_min hw' = loc_phi_min hw" and "loc_phi_max hw' = loc_phi_max hw"
    and "loc_theta_excl hw' = loc_theta_excl hw" and "loc_phi_excl hw' = loc_phi_excl hw"
  using assms
  by (auto simp: Hardware_rotate_def Let_def ebind_Inr_iff)

lemma Hardware_rotate_ok:
  assumes "lid \<in> dom (loc_gfa_excl hw)" "lid \<in> dom (loc_petal_excl hw)"
      and pr: "\<forall>p. loc_petal hw lid = Some p \<longrightarrow> - 2147483648 \<le> p \<and> p \<le> 2147483640"
  shows "\<exists>hw'. Hardware_rotate G lid hw = Inr hw'
               \<and> dom (loc_gfa_excl hw') = dom (loc_gfa_excl hw)
               \<and> dom (loc_petal_excl hw') = dom (loc_petal_excl hw)
               \<and> loc_petal hw' = loc_petal hw"
proof -
  define pt where "pt = (case loc_petal hw lid of None \<Rightarrow> 0 | Some p \<Rightarrow> p)"
  have "- 2147483648 \<le> pt \<and> pt \<le> 2147483640"
    using pr by (cases "loc_petal hw lid") (simp_all add: pt_def)
  then obtain cs where cs: "petal_csang pt = Inr cs" using petal_csang_ok by blast
  show ?thesis
    using assms(1,2) cs unfolding Hardware_rotate_def Let_def pt_def[symmetric]
    by (auto simp: map_at_def)
qed

lemma Hardware_rotates_ok:
  "set ls \<subseteq> dom (loc_gfa_excl hw) \<Longrightarrow> set ls \<subseteq> dom (loc_petal_excl hw) \<Longrightarrow>
   \<forall>l p. loc_petal hw l = Some p \<longrightarrow> - 2147483648 \<le> p \<and> p \<le> 2147483640 \<Longrightarrow>
   \<exists>hw'. efold (Hardware_rotate G) ls hw = Inr hw'"
proof (induction ls arbitrary: hw)
  case Nil
  then show ?case by simp
next
  case (Cons l ls)
  have "\<forall>p. loc_petal hw l = Some p \<longrightarrow> - 2147483648 \<le> p \<and> p \<le> 2147483640"
    using Cons.prems(3) by blast
  then obtain hw1 where r: "Hardware_rotate G l hw = Inr hw1"
    and d: "dom (loc_gfa_excl hw1) = dom (loc_gfa_excl hw)"
           "dom (loc_petal_excl hw1) = dom (loc_petal_excl hw)"
           "loc_petal hw1 = loc_petal hw"
    using Hardware_rotate_ok[of l hw G] Cons.prems(1,2) by auto
  have "\<exists>hw'. efold (Hardware_rotate G) ls hw1 = Inr hw'"
    using Cons.prems d by (intro Cons.IH) simp_all
  then show ?case using r by (simp add: ebind_def)
qed

lemma Hardware_rotates_fields:
  "efold (Hardware_rotate G) ls hw = Inr hw' \<Longrightarrow>
     neighbors hw' = neighbors hw \<and> locations hw' = locations hw
     \<and> loc_pos_xy_mm hw' = loc_pos_xy_mm hw \<and> neighbor_radius_mm hw' = neighbor_radius_mm hw
     \<and> loc_petal hw' = loc_petal hw \<and> loc_theta_arm hw' = loc_theta_arm hw
     \<and> loc_phi_arm hw' = loc_phi_arm hw \<and> loc_theta_min hw' = loc_theta_min hw
     \<and> loc_theta_max hw' = loc_theta_max hw"
proof (induction ls arbitrary: hw)
  case Nil
  then show ?case by simp
next
  case (Cons l ls)
  from Cons.prems obtain hw1 where r: "Hardware_rotate G l hw = Inr hw1"
    and rest: "efold (Hardware_rotate G) ls hw1 = Inr hw'"
    by (auto simp: ebind_Inr_iff)
  show ?case using Hardware_rotate_fields[OF r] Cons.IH[OF rest] by simp
qed

lemma Hardware_rotates_fields2:
  "efold (Hardware_rotate G) ls hw = Inr hw' \<Longrightarrow>
     loc_device hw' = loc_device hw \<and> loc_device_type hw' = loc_device_type hw
     \<and> loc_fiber hw' = loc_fiber hw \<and> loc_slitblock hw' = loc_slitblock hw
     \<and> loc_blockfiber hw' = loc_blockfiber hw \<and> state hw' = state hw
     \<and> loc_theta_offset hw' = loc_theta_offset hw \<and> loc_phi_offset hw' = loc_phi_offset hw
     \<and> loc_phi_min hw' = loc_phi_min hw \<and> loc_phi_max hw' = loc_phi_max hw
     \<and> loc_theta_excl hw' = loc_theta_excl hw \<and> loc_phi_excl hw' = loc_phi_excl hw"
proof (induction ls arbitrary: hw)
  case Nil
  then show ?case by simp
next
  case (Cons l ls)
  from Cons.prems obtain hw1 where r: "Hardware_rotate G l hw = Inr hw1"
    and rest: "efold (Hardware_rotate G) ls hw1 = Inr hw'"
    by (auto simp: ebind_Inr_iff)
  show ?case using Hardware_rotate_fields2[OF r] Cons.IH[OF rest] by simp
qed

lemma fbg_dist_commute: "fbg_dist p q = fbg_dist q p"
proof -
  have "sq_pair (fst p - fst q, snd p - snd q) = sq_pair (fst q - fst p, snd q - snd p)"
    by (simp add: sq_pair_def algebra_simps)
  then show ?thesis by (simp add: fbg_dist_def)
qed

lemma Hardware_init_fields:
  "locations (Hardware_init a np) = []"
  "neighbors (Hardware_init a np) = Map.empty"
  "nloc (Hardware_init a np) = length (arg_location a)"
  by (simp_all add: Hardware_init_def Let_def)

lemma Hardware_phases:
  assumes "Hardware G a = Inr hw"
  obtains np hw1 where
    "int32_add (maxpetal_of (arg_petal a)) 1 = Inr np"
    "efold (Hardware_row a) [0..<length (arg_location a)] (Hardware_init a np) = Inr hw1"
    "efold (Hardware_rotate G)
       (locations (Hardware_neighbors (Hardware_params (Hardware_sort hw1))))
       (Hardware_neighbors (Hardware_params (Hardware_sort hw1))) = Inr hw"
  using assms by (auto simp: Hardware_def ebind_Inr_iff Let_def)

lemma Hardware_neighbors_char:
  assumes H: "Hardware G a = Inr hw"
  defines "L \<equiv> sort (arg_location a)"
  defines "close \<equiv> (\<lambda>x y. fbg_dist (pos_index (loc_pos_xy_mm hw) (L ! x))
                               (pos_index (loc_pos_xy_mm hw) (L ! y)) \<le> 1405 / 100)"
  shows "locations hw = L"
    and "dom (neighbors hw) = set (arg_location a)"
    and "q \<in> set (map_index (neighbors hw) p) \<longleftrightarrow>
           (\<exists>x y. x < y \<and> y < length L \<and> close x y
                  \<and> ((L ! x = p \<and> L ! y = q) \<or> (L ! y = p \<and> L ! x = q)))"
proof -
  define n where "n = length (arg_location a)"
  from H obtain np hw1 where
    rows: "efold (Hardware_row a) [0..<n] (Hardware_init a np) = Inr hw1"
    and rot: "efold (Hardware_rotate G)
                (locations (Hardware_neighbors (Hardware_params (Hardware_sort hw1))))
                (Hardware_neighbors (Hardware_params (Hardware_sort hw1))) = Inr hw"
    unfolding n_def by (rule Hardware_phases)
  define hw3 where "hw3 = Hardware_params (Hardware_sort hw1)"
  define hw4 where "hw4 = Hardware_neighbors hw3"
  note r1 = Hardware_rows_fields[OF rows]
  have loc1: "locations hw1 = arg_location a"
    using r1 by (simp add: Hardware_init_fields n_def map_nth)
  have nb1: "neighbors hw1 = (\<lambda>l. if l \<in> set (arg_location a) then Some [] else None)"
  proof -
    have "(\<lambda>i. arg_location a ! i) ` set [0..<n] = set (arg_location a)"
      unfolding n_def by (metis map_nth set_map)
    then show ?thesis using r1 by (simp add: Hardware_init_fields cong: if_cong)
  qed
  have nloc1: "nloc hw1 = n"
    using r1 by (simp add: Hardware_init_fields n_def)
  have loc3: "locations hw3 = L" and nb3: "neighbors hw3 = neighbors hw1"
    and nloc3: "nloc hw3 = n" and r3: "neighbor_radius_mm hw3 = 1405 / 100"
    by (simp_all add: hw3_def Hardware_params_def Hardware_sort_def loc1 L_def nloc1)
  have hw4: "hw4 = hw3\<lparr> neighbors :=
      fold (nb_step L (loc_pos_xy_mm hw3) (1405 / 100)) (index_pairs n) (neighbors hw1) \<rparr>"
    unfolding hw4_def Hardware_neighbors_eq loc3 nb3 nloc3 r3 ..
  have rot': "efold (Hardware_rotate G) (locations hw4) hw4 = Inr hw"
    using rot by (simp add: hw4_def hw3_def)
  note r4 = Hardware_rotates_fields[OF rot']
  have pos: "loc_pos_xy_mm hw = loc_pos_xy_mm hw3"
    using r4 by (simp add: hw4)
  have nb: "neighbors hw =
      fold (nb_step L (loc_pos_xy_mm hw) (1405 / 100)) (index_pairs n) (neighbors hw1)"
    using r4 by (simp add: hw4 pos)
  show "locations hw = L" using r4 by (simp add: hw4 loc3)
  have lenL: "length L = n" by (simp add: L_def n_def)
  have setL: "set L = set (arg_location a)" by (simp add: L_def)
  have "L ! fst xy \<in> set (arg_location a) \<and> L ! snd xy \<in> set (arg_location a)"
    if "xy \<in> set (index_pairs n)" for xy
  proof -
    have "fst xy < snd xy \<and> snd xy < n" using that by (auto simp: set_index_pairs)
    then have "fst xy < length L" "snd xy < length L" using lenL by simp_all
    then have "L ! fst xy \<in> set L" "L ! snd xy \<in> set L" by simp_all
    then show ?thesis using setL by simp
  qed
  then have "\<forall>xy \<in> set (index_pairs n). L ! fst xy \<in> set (arg_location a) \<and> L ! snd xy \<in> set (arg_location a)"
    by blast
  moreover have "dom (neighbors hw1) = set (arg_location a)"
    unfolding nb1 dom_def by simp
  ultimately show "dom (neighbors hw) = set (arg_location a)"
    unfolding nb by (rule fold_nb_step_dom)
  have e: "map_index (neighbors hw1) p = []"
    by (simp add: nb1 map_index_def)
  show "q \<in> set (map_index (neighbors hw) p) \<longleftrightarrow>
           (\<exists>x y. x < y \<and> y < length L \<and> close x y
                  \<and> ((L ! x = p \<and> L ! y = q) \<or> (L ! y = p \<and> L ! x = q)))"
    unfolding nb fold_nb_step_set e close_def lenL
    by (auto simp: set_index_pairs)
qed

lemma Hardware_rows_ok:
  assumes c: "args_complete a"
  shows "set is \<subseteq> {0..<length (arg_location a)} \<Longrightarrow>
         \<exists>hw'. efold (Hardware_row a) is hw = Inr hw'"
proof (induction "is" arbitrary: hw)
  case Nil
  then show ?case by simp
next
  case (Cons i "is")
  have i: "i < length (arg_location a)" using Cons.prems by simp
  have "\<exists>hw1. Hardware_row a i hw = Inr hw1"
    using c i unfolding args_complete_def Let_def by (intro Hardware_row_ok) linarith+
  then obtain hw1 where r: "Hardware_row a i hw = Inr hw1" ..
  have "\<exists>hw'. efold (Hardware_row a) is hw1 = Inr hw'"
    using Cons.prems by (intro Cons.IH) simp
  then show ?case using r by (simp add: ebind_def)
qed

lemma Hardware_init_doms:
  "dom (loc_gfa_excl (Hardware_init a np)) = {}" "dom (loc_petal_excl (Hardware_init a np)) = {}"
  "loc_petal (Hardware_init a np) = Map.empty" "loc_theta_arm (Hardware_init a np) = Map.empty"
  "loc_phi_arm (Hardware_init a np) = Map.empty" "loc_theta_min (Hardware_init a np) = Map.empty"
  "loc_theta_max (Hardware_init a np) = Map.empty"
  by (simp_all add: Hardware_init_def Let_def)

lemma Hardware_init_doms2:
  "loc_device (Hardware_init a np) = Map.empty" "loc_device_type (Hardware_init a np) = Map.empty"
  "loc_fiber (Hardware_init a np) = Map.empty" "loc_slitblock (Hardware_init a np) = Map.empty"
  "loc_blockfiber (Hardware_init a np) = Map.empty" "loc_pos_xy_mm (Hardware_init a np) = Map.empty"
  "state (Hardware_init a np) = Map.empty" "loc_theta_offset (Hardware_init a np) = Map.empty"
  "loc_phi_offset (Hardware_init a np) = Map.empty" "loc_phi_min (Hardware_init a np) = Map.empty"
  "loc_phi_max (Hardware_init a np) = Map.empty" "loc_theta_excl (Hardware_init a np) = Map.empty"
  "loc_phi_excl (Hardware_init a np) = Map.empty"
  by (simp_all add: Hardware_init_def Let_def)

lemma Hardware_phases_keep:
  "loc_gfa_excl (Hardware_neighbors (Hardware_params (Hardware_sort hw))) = loc_gfa_excl hw"
  "loc_petal_excl (Hardware_neighbors (Hardware_params (Hardware_sort hw))) = loc_petal_excl hw"
  "locations (Hardware_neighbors (Hardware_params (Hardware_sort hw))) = sort (locations hw)"
  "loc_petal (Hardware_neighbors (Hardware_params (Hardware_sort hw))) = loc_petal hw"
  "loc_theta_arm (Hardware_neighbors (Hardware_params (Hardware_sort hw))) = loc_theta_arm hw"
  "loc_phi_arm (Hardware_neighbors (Hardware_params (Hardware_sort hw))) = loc_phi_arm hw"
  "loc_theta_min (Hardware_neighbors (Hardware_params (Hardware_sort hw))) = loc_theta_min hw"
  "loc_theta_max (Hardware_neighbors (Hardware_params (Hardware_sort hw))) = loc_theta_max hw"
  by (simp_all add: Hardware_neighbors_eq Hardware_params_def Hardware_sort_def)

lemma Hardware_phases_keep2:
  "loc_device (Hardware_neighbors (Hardware_params (Hardware_sort hw))) = loc_device hw"
  "loc_device_type (Hardware_neighbors (Hardware_params (Hardware_sort hw))) = loc_device_type hw"
  "loc_fiber (Hardware_neighbors (Hardware_params (Hardware_sort hw))) = loc_fiber hw"
  "loc_slitblock (Hardware_neighbors (Hardware_params (Hardware_sort hw))) = loc_slitblock hw"
  "loc_blockfiber (Hardware_neighbors (Hardware_params (Hardware_sort hw))) = loc_blockfiber hw"
  "loc_pos_xy_mm (Hardware_neighbors (Hardware_params (Hardware_sort hw))) = loc_pos_xy_mm hw"
  "state (Hardware_neighbors (Hardware_params (Hardware_sort hw))) = state hw"
  "loc_theta_offset (Hardware_neighbors (Hardware_params (Hardware_sort hw))) = loc_theta_offset hw"
  "loc_phi_offset (Hardware_neighbors (Hardware_params (Hardware_sort hw))) = loc_phi_offset hw"
  "loc_phi_min (Hardware_neighbors (Hardware_params (Hardware_sort hw))) = loc_phi_min hw"
  "loc_phi_max (Hardware_neighbors (Hardware_params (Hardware_sort hw))) = loc_phi_max hw"
  "loc_theta_excl (Hardware_neighbors (Hardware_params (Hardware_sort hw))) = loc_theta_excl hw"
  "loc_phi_excl (Hardware_neighbors (Hardware_params (Hardware_sort hw))) = loc_phi_excl hw"
  by (simp_all add: Hardware_neighbors_eq Hardware_params_def Hardware_sort_def)

lemma nth_image_upt: "(!) xs ` {0..<length xs} = set xs"
  by (auto simp: in_set_conv_nth)

lemma maxpetal_fold_bounds:
  "m0 \<le> B \<Longrightarrow> \<forall>p \<in> set ps. p \<le> B \<Longrightarrow>
   m0 \<le> fold (\<lambda>p maxpetal. if p > maxpetal then p else maxpetal) ps m0
   \<and> fold (\<lambda>p maxpetal. if p > maxpetal then p else maxpetal) ps m0 \<le> (B :: int)"
proof (induction ps arbitrary: m0)
  case Nil
  then show ?case by simp
next
  case (Cons p ps)
  define m1 where "m1 = (if p > m0 then p else m0)"
  have "m1 \<le> B" using Cons.prems by (simp add: m1_def)
  moreover have "\<forall>p \<in> set ps. p \<le> B" using Cons.prems by simp
  ultimately have "m1 \<le> fold (\<lambda>p maxpetal. if p > maxpetal then p else maxpetal) ps m1
     \<and> fold (\<lambda>p maxpetal. if p > maxpetal then p else maxpetal) ps m1 \<le> B"
    by (rule Cons.IH)
  moreover have "m0 \<le> m1" by (simp add: m1_def)
  ultimately show ?case by (simp add: m1_def)
qed

lemma maxpetal_add_ok:
  assumes "petals_in_range a"
  shows "int32_add (maxpetal_of (arg_petal a)) 1 = Inr (maxpetal_of (arg_petal a) + 1)"
proof -
  have "\<forall>p \<in> set (arg_petal a). p \<le> 2147483640"
    using assms by (simp add: petals_in_range_def)
  then have "0 \<le> maxpetal_of (arg_petal a) \<and> maxpetal_of (arg_petal a) \<le> 2147483640"
    unfolding maxpetal_of_def by (intro maxpetal_fold_bounds) simp_all
  then show ?thesis by (simp add: int32_add_def)
qed

lemma Hardware_total:
  assumes c: "args_complete a" and pr: "petals_in_range a"
  shows "\<exists>hw. Hardware G a = Inr hw"
proof -
  define n where "n = length (arg_location a)"
  define np where "np = maxpetal_of (arg_petal a) + 1"
  have np: "int32_add (maxpetal_of (arg_petal a)) 1 = Inr np"
    unfolding np_def using pr by (rule maxpetal_add_ok)
  obtain hw1 where rows: "efold (Hardware_row a) [0..<n] (Hardware_init a np) = Inr hw1"
    using Hardware_rows_ok[OF c, of "[0..<n]" "Hardware_init a np"] by (auto simp: n_def)
  define hw2 where "hw2 = Hardware_neighbors (Hardware_params (Hardware_sort hw1))"
  note r1 = Hardware_rows_fields[OF rows]
  have d: "dom (loc_gfa_excl hw1) = set (arg_location a)" "dom (loc_petal_excl hw1) = set (arg_location a)"
    and l: "locations hw1 = arg_location a"
    using r1 by (simp_all add: Hardware_init_doms Hardware_init_fields nth_image_upt map_nth n_def)
  have np_len: "n \<le> length (arg_petal a)"
    using c by (simp add: args_complete_def Let_def n_def)
  have "loc_petal hw1 = loc_petal (Hardware_init a np)
          ++ map_of (rev (map (\<lambda>i. (arg_location a ! i, arg_petal a ! i)) [0..<n]))"
    using Hardware_row_fields(7) rows by (rule Hardware_rows_store)
  then have lp: "loc_petal hw1 = map_of (rev (map (\<lambda>i. (arg_location a ! i, arg_petal a ! i)) [0..<n]))"
    by (simp add: Hardware_init_doms)
  have petals: "- 2147483648 \<le> p \<and> p \<le> 2147483640" if "loc_petal hw1 l = Some p" for l p
  proof -
    have "(l, p) \<in> set (rev (map (\<lambda>i. (arg_location a ! i, arg_petal a ! i)) [0..<n]))"
      using that unfolding lp by (rule map_of_SomeD)
    then obtain i where "i < n" "p = arg_petal a ! i" by auto
    then have "p \<in> set (arg_petal a)" using np_len by simp
    then show ?thesis using pr by (simp add: petals_in_range_def)
  qed
  have "\<exists>hw. efold (Hardware_rotate G) (locations hw2) hw2 = Inr hw"
    unfolding hw2_def using petals
    by (intro Hardware_rotates_ok) (simp_all add: Hardware_phases_keep d l)
  then show ?thesis
    using rows np by (simp add: Hardware_def ebind_def Let_def hw2_def n_def)
qed

lemma Hardware_stored:
  assumes H: "Hardware G a = Inr hw"
      and i: "i < length (arg_location a)"
      and last: "\<forall>j. i < j \<and> j < length (arg_location a) \<longrightarrow> arg_location a ! j \<noteq> arg_location a ! i"
  shows "loc_petal hw (arg_location a ! i) = Some (arg_petal a ! i)"
    and "loc_theta_arm hw (arg_location a ! i) = Some (arg_theta_arm a ! i)"
    and "loc_phi_arm hw (arg_location a ! i) = Some (arg_phi_arm a ! i)"
    and "loc_theta_min hw (arg_location a ! i) = Some (arg_theta_min a ! i * pi / 180)"
    and "loc_theta_max hw (arg_location a ! i) = Some (arg_theta_max a ! i * pi / 180)"
    and "loc_device hw (arg_location a ! i) = Some (arg_device a ! i)"
    and "loc_device_type hw (arg_location a ! i) = Some (arg_device_type a ! i)"
    and "loc_fiber hw (arg_location a ! i) = Some (arg_fiber a ! i)"
    and "loc_slitblock hw (arg_location a ! i) = Some (arg_slitblock a ! i)"
    and "loc_blockfiber hw (arg_location a ! i) = Some (arg_blockfiber a ! i)"
    and "loc_pos_xy_mm hw (arg_location a ! i) = Some (arg_x_mm a ! i, arg_y_mm a ! i)"
    and "state hw (arg_location a ! i) = Some (arg_status a ! i)"
    and "loc_theta_offset hw (arg_location a ! i) = Some (arg_theta_offset a ! i * pi / 180)"
    and "loc_phi_offset hw (arg_location a ! i) = Some (arg_phi_offset a ! i * pi / 180)"
    and "loc_phi_min hw (arg_location a ! i) = Some (arg_phi_min a ! i * pi / 180)"
    and "loc_phi_max hw (arg_location a ! i) = Some (arg_phi_max a ! i * pi / 180)"
    and "loc_theta_excl hw (arg_location a ! i) = Some (arg_excl_theta a ! i)"
    and "loc_phi_excl hw (arg_location a ! i) = Some (arg_excl_phi a ! i)"
proof -
  define n where "n = length (arg_location a)"
  from H obtain np hw1 where
    rows: "efold (Hardware_row a) [0..<n] (Hardware_init a np) = Inr hw1"
    and rot: "efold (Hardware_rotate G)
                (locations (Hardware_neighbors (Hardware_params (Hardware_sort hw1))))
                (Hardware_neighbors (Hardware_params (Hardware_sort hw1))) = Inr hw"
    unfolding n_def by (rule Hardware_phases)
  note r4 = Hardware_rotates_fields[OF rot]
  note r5 = Hardware_rotates_fields2[OF rot]
  have sel: "sel hw1 (arg_location a ! i) = Some (val i)"
    if "\<And>i hw hw'. Hardware_row a i hw = Inr hw' \<Longrightarrow>
                   sel hw' = (sel hw)(arg_location a ! i \<mapsto> val i)"
      and "sel (Hardware_init a np) = Map.empty"
    for sel :: "'a hardware \<Rightarrow> int \<rightharpoonup> 'b" and val
  proof -
    have "sel hw1 = sel (Hardware_init a np)
              ++ map_of (rev (map (\<lambda>i. (arg_location a ! i, val i)) [0..<n]))"
      using that(1) rows by (rule Hardware_rows_store)
    moreover have "map_of (rev (map (\<lambda>i. (arg_location a ! i, val i)) [0..<n])) (arg_location a ! i)
        = Some (val i)"
      using i last unfolding n_def by (intro map_of_rev_last) simp_all
    ultimately show ?thesis using that(2) by simp
  qed
  show "loc_petal hw (arg_location a ! i) = Some (arg_petal a ! i)"
    using sel[of loc_petal "\<lambda>i. arg_petal a ! i"] r4
    by (simp add: Hardware_phases_keep Hardware_init_doms Hardware_row_fields)
  show "loc_theta_arm hw (arg_location a ! i) = Some (arg_theta_arm a ! i)"
    using sel[of loc_theta_arm "\<lambda>i. arg_theta_arm a ! i"] r4
    by (simp add: Hardware_phases_keep Hardware_init_doms Hardware_row_fields)
  show "loc_phi_arm hw (arg_location a ! i) = Some (arg_phi_arm a ! i)"
    using sel[of loc_phi_arm "\<lambda>i. arg_phi_arm a ! i"] r4
    by (simp add: Hardware_phases_keep Hardware_init_doms Hardware_row_fields)
  show "loc_theta_min hw (arg_location a ! i) = Some (arg_theta_min a ! i * pi / 180)"
    using sel[of loc_theta_min "\<lambda>i. arg_theta_min a ! i * pi / 180"] r4
    by (simp add: Hardware_phases_keep Hardware_init_doms Hardware_row_fields)
  show "loc_theta_max hw (arg_location a ! i) = Some (arg_theta_max a ! i * pi / 180)"
    using sel[of loc_theta_max "\<lambda>i. arg_theta_max a ! i * pi / 180"] r4
    by (simp add: Hardware_phases_keep Hardware_init_doms Hardware_row_fields)
  show "loc_device hw (arg_location a ! i) = Some (arg_device a ! i)"
    using sel[of loc_device "\<lambda>i. arg_device a ! i"] r5
    by (simp add: Hardware_phases_keep2 Hardware_init_doms2 Hardware_row_fields2)
  show "loc_device_type hw (arg_location a ! i) = Some (arg_device_type a ! i)"
    using sel[of loc_device_type "\<lambda>i. arg_device_type a ! i"] r5
    by (simp add: Hardware_phases_keep2 Hardware_init_doms2 Hardware_row_fields2)
  show "loc_fiber hw (arg_location a ! i) = Some (arg_fiber a ! i)"
    using sel[of loc_fiber "\<lambda>i. arg_fiber a ! i"] r5
    by (simp add: Hardware_phases_keep2 Hardware_init_doms2 Hardware_row_fields2)
  show "loc_slitblock hw (arg_location a ! i) = Some (arg_slitblock a ! i)"
    using sel[of loc_slitblock "\<lambda>i. arg_slitblock a ! i"] r5
    by (simp add: Hardware_phases_keep2 Hardware_init_doms2 Hardware_row_fields2)
  show "loc_blockfiber hw (arg_location a ! i) = Some (arg_blockfiber a ! i)"
    using sel[of loc_blockfiber "\<lambda>i. arg_blockfiber a ! i"] r5
    by (simp add: Hardware_phases_keep2 Hardware_init_doms2 Hardware_row_fields2)
  show "loc_pos_xy_mm hw (arg_location a ! i) = Some (arg_x_mm a ! i, arg_y_mm a ! i)"
    using sel[of loc_pos_xy_mm "\<lambda>i. (arg_x_mm a ! i, arg_y_mm a ! i)"] r4
    by (simp add: Hardware_phases_keep2 Hardware_init_doms2 Hardware_row_fields2)
  show "state hw (arg_location a ! i) = Some (arg_status a ! i)"
    using sel[of state "\<lambda>i. arg_status a ! i"] r5
    by (simp add: Hardware_phases_keep2 Hardware_init_doms2 Hardware_row_fields2)
  show "loc_theta_offset hw (arg_location a ! i) = Some (arg_theta_offset a ! i * pi / 180)"
    using sel[of loc_theta_offset "\<lambda>i. arg_theta_offset a ! i * pi / 180"] r5
    by (simp add: Hardware_phases_keep2 Hardware_init_doms2 Hardware_row_fields2)
  show "loc_phi_offset hw (arg_location a ! i) = Some (arg_phi_offset a ! i * pi / 180)"
    using sel[of loc_phi_offset "\<lambda>i. arg_phi_offset a ! i * pi / 180"] r5
    by (simp add: Hardware_phases_keep2 Hardware_init_doms2 Hardware_row_fields2)
  show "loc_phi_min hw (arg_location a ! i) = Some (arg_phi_min a ! i * pi / 180)"
    using sel[of loc_phi_min "\<lambda>i. arg_phi_min a ! i * pi / 180"] r5
    by (simp add: Hardware_phases_keep2 Hardware_init_doms2 Hardware_row_fields2)
  show "loc_phi_max hw (arg_location a ! i) = Some (arg_phi_max a ! i * pi / 180)"
    using sel[of loc_phi_max "\<lambda>i. arg_phi_max a ! i * pi / 180"] r5
    by (simp add: Hardware_phases_keep2 Hardware_init_doms2 Hardware_row_fields2)
  show "loc_theta_excl hw (arg_location a ! i) = Some (arg_excl_theta a ! i)"
    using sel[of loc_theta_excl "\<lambda>i. arg_excl_theta a ! i"] r5
    by (simp add: Hardware_phases_keep2 Hardware_init_doms2 Hardware_row_fields2)
  show "loc_phi_excl hw (arg_location a ! i) = Some (arg_excl_phi a ! i)"
    using sel[of loc_phi_excl "\<lambda>i. arg_excl_phi a ! i"] r5
    by (simp add: Hardware_phases_keep2 Hardware_init_doms2 Hardware_row_fields2)
qed

text \<open>
  C2 (as amended).  The constructor validates nothing.  Whatever the location ids (duplicates
  included), petal indices, arm lengths and angle limits are, construction succeeds as soon as
  every per-location array has an entry for each location and no petal index is above
  \<open>2\<^sup>3\<^sup>1 - 8\<close> (the sums \<^verbatim>\<open>maxpetal + 1\<close> and \<^verbatim>\<open>7 + pt\<close> then stay within \<^verbatim>\<open>int32_t\<close>).  The object
  holds the given ids, and every value given for a location is stored as given under the
  location id: petal, device, device type, fiber, slitblock, blockfiber, centre, status, the
  two arm lengths, the theta and phi exclusion shapes, and, converted to radians, the two
  offsets and the four angle limits.  Of a duplicated id the last entry is the one kept.
\<close>

theorem Hardware_validates_nothing:
  assumes "args_complete a" and "petals_in_range a"
  shows "\<exists>hw. Hardware G a = Inr hw
           \<and> set (locations hw) = set (arg_location a)
           \<and> (\<forall>i<length (arg_location a).
                 (\<forall>j. i < j \<and> j < length (arg_location a)
                        \<longrightarrow> arg_location a ! j \<noteq> arg_location a ! i) \<longrightarrow>
                 loc_petal hw (arg_location a ! i) = Some (arg_petal a ! i)
                 \<and> loc_theta_arm hw (arg_location a ! i) = Some (arg_theta_arm a ! i)
                 \<and> loc_phi_arm hw (arg_location a ! i) = Some (arg_phi_arm a ! i)
                 \<and> loc_theta_min hw (arg_location a ! i) = Some (arg_theta_min a ! i * pi / 180)
                 \<and> loc_theta_max hw (arg_location a ! i) = Some (arg_theta_max a ! i * pi / 180)
                 \<and> loc_phi_min hw (arg_location a ! i) = Some (arg_phi_min a ! i * pi / 180)
                 \<and> loc_phi_max hw (arg_location a ! i) = Some (arg_phi_max a ! i * pi / 180)
                 \<and> loc_theta_offset hw (arg_location a ! i)
                     = Some (arg_theta_offset a ! i * pi / 180)
                 \<and> loc_phi_offset hw (arg_location a ! i)
                     = Some (arg_phi_offset a ! i * pi / 180)
                 \<and> loc_pos_xy_mm hw (arg_location a ! i) = Some (arg_x_mm a ! i, arg_y_mm a ! i)
                 \<and> state hw (arg_location a ! i) = Some (arg_status a ! i)
                 \<and> loc_device hw (arg_location a ! i) = Some (arg_device a ! i)
                 \<and> loc_device_type hw (arg_location a ! i) = Some (arg_device_type a ! i)
                 \<and> loc_fiber hw (arg_location a ! i) = Some (arg_fiber a ! i)
                 \<and> loc_slitblock hw (arg_location a ! i) = Some (arg_slitblock a ! i)
                 \<and> loc_blockfiber hw (arg_location a ! i) = Some (arg_blockfiber a ! i)
                 \<and> loc_theta_excl hw (arg_location a ! i) = Some (arg_excl_theta a ! i)
                 \<and> loc_phi_excl hw (arg_location a ! i) = Some (arg_excl_phi a ! i))"
proof -
  obtain hw where H: "Hardware G a = Inr hw" using Hardware_total[OF assms] by blast
  have L: "set (locations hw) = set (arg_location a)"
    using Hardware_neighbors_char(1)[OF H] by simp
  have S: "loc_petal hw (arg_location a ! i) = Some (arg_petal a ! i)
                 \<and> loc_theta_arm hw (arg_location a ! i) = Some (arg_theta_arm a ! i)
                 \<and> loc_phi_arm hw (arg_location a ! i) = Some (arg_phi_arm a ! i)
                 \<and> loc_theta_min hw (arg_location a ! i) = Some (arg_theta_min a ! i * pi / 180)
                 \<and> loc_theta_max hw (arg_location a ! i) = Some (arg_theta_max a ! i * pi / 180)
                 \<and> loc_phi_min hw (arg_location a ! i) = Some (arg_phi_min a ! i * pi / 180)
                 \<and> loc_phi_max hw (arg_location a ! i) = Some (arg_phi_max a ! i * pi / 180)
                 \<and> loc_theta_offset hw (arg_location a ! i)
                     = Some (arg_theta_offset a ! i * pi / 180)
                 \<and> loc_phi_offset hw (arg_location a ! i)
                     = Some (arg_phi_offset a ! i * pi / 180)
                 \<and> loc_pos_xy_mm hw (arg_location a ! i) = Some (arg_x_mm a ! i, arg_y_mm a ! i)
                 \<and> state hw (arg_location a ! i) = Some (arg_status a ! i)
                 \<and> loc_device hw (arg_location a ! i) = Some (arg_device a ! i)
                 \<and> loc_device_type hw (arg_location a ! i) = Some (arg_device_type a ! i)
                 \<and> loc_fiber hw (arg_location a ! i) = Some (arg_fiber a ! i)
                 \<and> loc_slitblock hw (arg_location a ! i) = Some (arg_slitblock a ! i)
                 \<and> loc_blockfiber hw (arg_location a ! i) = Some (arg_blockfiber a ! i)
                 \<and> loc_theta_excl hw (arg_location a ! i) = Some (arg_excl_theta a ! i)
                 \<and> loc_phi_excl hw (arg_location a ! i) = Some (arg_excl_phi a ! i)"
    if "i < length (arg_location a)"
      "\<forall>j. i < j \<and> j < length (arg_location a) \<longrightarrow> arg_location a ! j \<noteq> arg_location a ! i"
    for i
    by (intro conjI Hardware_stored[OF H that])
  show ?thesis using H L S by blast
qed

theorem Hardware_validates_nothing_witness:
  "args_complete two_args \<and> petals_in_range two_args
   \<and> (\<exists>hw. Hardware point_geom two_args = Inr hw \<and> set (locations hw) = {1, 2}
          \<and> loc_theta_arm hw 2 = Some 3 \<and> loc_petal hw 1 = Some 0
          \<and> loc_phi_min hw 2 = Some (- 200 * pi / 180) \<and> loc_phi_max hw 2 = Some (200 * pi / 180)
          \<and> loc_pos_xy_mm hw 2 = Some (6, 0))"
proof -
  have c: "args_complete two_args" by (simp add: args_complete_def two_args_def)
  have pr: "petals_in_range two_args" by (simp add: petals_in_range_def two_args_def)
  obtain hw where H: "Hardware point_geom two_args = Inr hw"
    and L: "set (locations hw) = set (arg_location two_args)"
    and S: "\<forall>i<length (arg_location two_args).
                 (\<forall>j. i < j \<and> j < length (arg_location two_args)
                        \<longrightarrow> arg_location two_args ! j \<noteq> arg_location two_args ! i) \<longrightarrow>
                 loc_petal hw (arg_location two_args ! i) = Some (arg_petal two_args ! i)
                 \<and> loc_theta_arm hw (arg_location two_args ! i) = Some (arg_theta_arm two_args ! i)
                 \<and> loc_phi_arm hw (arg_location two_args ! i) = Some (arg_phi_arm two_args ! i)
                 \<and> loc_theta_min hw (arg_location two_args ! i)
                     = Some (arg_theta_min two_args ! i * pi / 180)
                 \<and> loc_theta_max hw (arg_location two_args ! i)
                     = Some (arg_theta_max two_args ! i * pi / 180)
                 \<and> loc_phi_min hw (arg_location two_args ! i)
                     = Some (arg_phi_min two_args ! i * pi / 180)
                 \<and> loc_phi_max hw (arg_location two_args ! i)
                     = Some (arg_phi_max two_args ! i * pi / 180)
                 \<and> loc_theta_offset hw (arg_location two_args ! i)
                     = Some (arg_theta_offset two_args ! i * pi / 180)
                 \<and> loc_phi_offset hw (arg_location two_args ! i)
                     = Some (arg_phi_offset two_args ! i * pi / 180)
                 \<and> loc_pos_xy_mm hw (arg_location two_args ! i)
                     = Some (arg_x_mm two_args ! i, arg_y_mm two_args ! i)
                 \<and> state hw (arg_location two_args ! i) = Some (arg_status two_args ! i)
                 \<and> loc_device hw (arg_location two_args ! i) = Some (arg_device two_args ! i)
                 \<and> loc_device_type hw (arg_location two_args ! i)
                     = Some (arg_device_type two_args ! i)
                 \<and> loc_fiber hw (arg_location two_args ! i) = Some (arg_fiber two_args ! i)
                 \<and> loc_slitblock hw (arg_location two_args ! i) = Some (arg_slitblock two_args ! i)
                 \<and> loc_blockfiber hw (arg_location two_args ! i)
                     = Some (arg_blockfiber two_args ! i)
                 \<and> loc_theta_excl hw (arg_location two_args ! i)
                     = Some (arg_excl_theta two_args ! i)
                 \<and> loc_phi_excl hw (arg_location two_args ! i) = Some (arg_excl_phi two_args ! i)"
    using Hardware_validates_nothing [OF c pr, of point_geom] by blast
  have l: "length (arg_location two_args) = 2" "arg_location two_args = [2, 1]"
    "arg_petal two_args = [0, 0]" "arg_theta_arm two_args = [3, 3]"
    "arg_phi_min two_args = [- 200, - 200]" "arg_phi_max two_args = [200, 200]"
    "arg_x_mm two_args = [6, 0]" "arg_y_mm two_args = [0, 0]"
    by (simp_all add: two_args_def)
  have p0: "\<forall>j. 0 < j \<and> j < length (arg_location two_args)
                \<longrightarrow> arg_location two_args ! j \<noteq> arg_location two_args ! 0"
    by (auto simp: l less_Suc_eq numeral_2_eq_2)
  have p1: "\<forall>j. 1 < j \<and> j < length (arg_location two_args)
                \<longrightarrow> arg_location two_args ! j \<noteq> arg_location two_args ! 1"
    by (simp add: l)
  have i0: "(0 :: nat) < length (arg_location two_args)" by (simp add: l)
  have i1: "(1 :: nat) < length (arg_location two_args)" by (simp add: l)
  note s0 = mp[OF mp[OF spec[OF S] i0] p0]
  note s1 = mp[OF mp[OF spec[OF S] i1] p1]
  have "loc_theta_arm hw 2 = Some 3" using s0 by (simp add: l)
  moreover have "loc_petal hw 1 = Some 0" using s1 by (simp add: l)
  moreover have "loc_phi_min hw 2 = Some (- 200 * pi / 180)" using s0 by (simp add: l)
  moreover have "loc_phi_max hw 2 = Some (200 * pi / 180)" using s0 by (simp add: l)
  moreover have "loc_pos_xy_mm hw 2 = Some (6, 0)" using s0 by (simp add: l)
  moreover have "set (locations hw) = {1, 2}" using L by (auto simp: l)
  ultimately show ?thesis using c pr H by blast
qed

text \<open>
  The claim as stated fails: with a duplicated location id, petal indices \<open>-3\<close> and \<open>12\<close>,
  negative arm lengths and angle ranges whose minimum is above the maximum, construction
  does not fail.
\<close>

theorem Hardware_invalid_input_counterexample:
  "\<not> isl (Hardware point_geom bad_args)"
proof -
  have "args_complete bad_args" by (simp add: args_complete_def bad_args_def)
  moreover have "petals_in_range bad_args" by (simp add: petals_in_range_def bad_args_def)
  ultimately obtain hw where "Hardware point_geom bad_args = Inr hw"
    using Hardware_total by blast
  then show ?thesis by simp
qed

text \<open>
  C5 (as amended).  In a constructed hardware object the neighbor relation is symmetric; the
  keys of \<^verbatim>\<open>neighbors\<close> are the locations; two different locations are neighbors exactly
  when the euclidean distance of their centers is at most \<open>14.05\<close> mm; and, provided the
  location ids given to the constructor are pairwise distinct, no location is its own
  neighbor.
\<close>

theorem Hardware_neighbors_symmetric:
  assumes H: "Hardware G a = Inr hw"
  shows "(\<forall>p q. q \<in> set (map_index (neighbors hw) p) \<longleftrightarrow> p \<in> set (map_index (neighbors hw) q))
       \<and> dom (neighbors hw) = set (locations hw)
       \<and> (\<forall>p q. p \<in> set (locations hw) \<and> q \<in> set (locations hw) \<and> p \<noteq> q \<longrightarrow>
             (q \<in> set (map_index (neighbors hw) p) \<longleftrightarrow>
                fbg_dist (pos_index (loc_pos_xy_mm hw) p) (pos_index (loc_pos_xy_mm hw) q)
                  \<le> 1405 / 100))
       \<and> (distinct (arg_location a) \<longrightarrow> (\<forall>p. p \<notin> set (map_index (neighbors hw) p)))"
proof -
  define L where "L = sort (arg_location a)"
  define close where "close = (\<lambda>x y. fbg_dist (pos_index (loc_pos_xy_mm hw) (L ! x))
                               (pos_index (loc_pos_xy_mm hw) (L ! y)) \<le> 1405 / 100)"
  have loc: "locations hw = L"
    and dm: "dom (neighbors hw) = set (arg_location a)"
    and ch: "\<And>p q. q \<in> set (map_index (neighbors hw) p) \<longleftrightarrow>
           (\<exists>x y. x < y \<and> y < length L \<and> close x y
                  \<and> ((L ! x = p \<and> L ! y = q) \<or> (L ! y = p \<and> L ! x = q)))"
    using Hardware_neighbors_char[OF H] unfolding L_def close_def by blast+
  have sym: "q \<in> set (map_index (neighbors hw) p) \<longleftrightarrow> p \<in> set (map_index (neighbors hw) q)" for p q
    unfolding ch by blast
  have dom: "dom (neighbors hw) = set (locations hw)"
    using dm loc by (simp add: L_def)
  have edge: "q \<in> set (map_index (neighbors hw) p) \<longleftrightarrow>
                fbg_dist (pos_index (loc_pos_xy_mm hw) p) (pos_index (loc_pos_xy_mm hw) q)
                  \<le> 1405 / 100"
    if pq: "p \<in> set (locations hw)" "q \<in> set (locations hw)" "p \<noteq> q" for p q
  proof
    assume "q \<in> set (map_index (neighbors hw) p)"
    then obtain x y where "close x y" "(L ! x = p \<and> L ! y = q) \<or> (L ! y = p \<and> L ! x = q)"
      unfolding ch by blast
    then show "fbg_dist (pos_index (loc_pos_xy_mm hw) p) (pos_index (loc_pos_xy_mm hw) q)
                  \<le> 1405 / 100"
      unfolding close_def using fbg_dist_commute by metis
  next
    assume d: "fbg_dist (pos_index (loc_pos_xy_mm hw) p) (pos_index (loc_pos_xy_mm hw) q)
                  \<le> 1405 / 100"
    obtain i j where ij: "i < length L" "L ! i = p" "j < length L" "L ! j = q"
      using pq loc by (metis in_set_conv_nth)
    have ne: "i \<noteq> j" using ij pq(3) by auto
    show "q \<in> set (map_index (neighbors hw) p)"
    proof (cases "i < j")
      case True
      have "close i j" unfolding close_def using d ij by simp
      then show ?thesis unfolding ch using True ij by blast
    next
      case False
      then have ji: "j < i" using ne by simp
      have "close j i" unfolding close_def using d ij fbg_dist_commute by metis
      then show ?thesis unfolding ch using ji ij by blast
    qed
  qed
  have irr: "p \<notin> set (map_index (neighbors hw) p)" if d: "distinct (arg_location a)" for p
  proof
    assume "p \<in> set (map_index (neighbors hw) p)"
    then obtain x y where xy: "x < y" "y < length L" "L ! x = L ! y"
      unfolding ch by auto
    have "distinct L" using d by (simp add: L_def)
    then show False using xy by (simp add: nth_eq_iff_index_eq)
  qed
  show ?thesis using sym dom edge irr by blast
qed

theorem Hardware_neighbors_symmetric_witness:
  "\<exists>hw. Hardware point_geom two_args = Inr hw
        \<and> dom (neighbors hw) = {1, 2}
        \<and> 1 \<notin> set (map_index (neighbors hw) 1)
        \<and> (2 \<in> set (map_index (neighbors hw) 1) \<longleftrightarrow> 1 \<in> set (map_index (neighbors hw) 2))"
proof -
  have c: "args_complete two_args" by (simp add: args_complete_def two_args_def)
  have pr: "petals_in_range two_args" by (simp add: petals_in_range_def two_args_def)
  obtain hw where H: "Hardware point_geom two_args = Inr hw"
    using Hardware_total[OF c pr] by blast
  have d: "distinct (arg_location two_args)" by (simp add: two_args_def)
  have l: "set (locations hw) = {1, 2}"
    using Hardware_neighbors_char(1)[OF H] by (auto simp: two_args_def)
  show ?thesis
    using Hardware_neighbors_symmetric [OF H] d l H by auto
qed

text \<open>
  The claim as stated fails: the constructor accepts a location id given twice, and that
  location is then its own neighbor.
\<close>

theorem Hardware_self_neighbor_counterexample:
  "ebind (Hardware point_geom bad_args) (\<lambda>hw. Inr (5 \<in> set (map_index (neighbors hw) 5)))
     = Inr True"
proof -
  have "args_complete bad_args" by (simp add: args_complete_def bad_args_def)
  moreover have "petals_in_range bad_args" by (simp add: petals_in_range_def bad_args_def)
  ultimately obtain hw where H: "Hardware point_geom bad_args = Inr hw"
    using Hardware_total by blast
  have s: "sort (arg_location bad_args) = [5, 5]" by (simp add: bad_args_def)
  have z: "fbg_dist p p = 0" for p by (simp add: fbg_dist_def sq_pair_def)
  have "\<exists>x y. x < y \<and> y < length [5, 5 :: int]
      \<and> fbg_dist (pos_index (loc_pos_xy_mm hw) ([5, 5] ! x))
           (pos_index (loc_pos_xy_mm hw) ([5, 5] ! y)) \<le> 1405 / 100
      \<and> (([5, 5 :: int] ! x = 5 \<and> [5, 5 :: int] ! y = 5) \<or> ([5, 5 :: int] ! y = 5 \<and> [5, 5 :: int] ! x = 5))"
    by (intro exI[of _ 0] exI[of _ 1]) (simp add: z)
  then have "5 \<in> set (map_index (neighbors hw) 5)"
    using Hardware_neighbors_char(3)[OF H, of 5 5] unfolding s by simp
  then show ?thesis using H by (simp add: ebind_def)
qed

section \<open>Batch collision check: the pairs checked and the marks returned\<close>

lemma map_of_smap_update: "map_of (smap_update k v kvs) = (map_of kvs)(k \<mapsto> v)"
  by (induction kvs) (auto simp: fun_eq_iff)

lemma keys_smap_update:
  "set (map fst (smap_update k v kvs)) = insert k (set (map fst kvs))"
  by (induction k v kvs rule: smap_update.induct) auto

lemma sorted_smap_update:
  "sorted_wrt (<) (map fst kvs) \<Longrightarrow> sorted_wrt (<) (map fst (smap_update k v kvs))"
proof (induction kvs)
  case Nil
  then show ?case by simp
next
  case (Cons kv kvs)
  obtain k1 v1 where kv: "kv = (k1, v1)" by (cases kv)
  have ih: "sorted_wrt (<) (map fst (smap_update k v kvs))" using Cons by simp
  have gt: "\<forall>x \<in> set (map fst kvs). k1 < x" using Cons.prems kv by auto
  show ?case
  proof (cases "k < k1")
    case True
    then show ?thesis using Cons.prems kv by auto
  next
    case False
    show ?thesis
    proof (cases "k = k1")
      case True
      then show ?thesis using Cons.prems kv by auto
    next
      case ne: False
      then have "k1 < k" using False by simp
      then have "\<forall>x \<in> set (map fst (smap_update k v kvs)). k1 < x"
        using gt unfolding keys_smap_update by simp
      then show ?thesis using False ne ih kv by auto
    qed
  qed
qed

lemma set_checkpairs_of:
  assumes "sorted_wrt (<) (map fst cl)"
  shows "set (checkpairs_of cl) = pairset cl"
proof -
  have d: "distinct (map fst cl)"
    using assms by (simp add: strict_sorted_iff)
  have "(lo, hi) \<in> set (checkpairs_of cl) \<longleftrightarrow> (\<exists>hs. (lo, hs) \<in> set cl \<and> hi \<in> set hs)" for lo hi
    by (auto simp: checkpairs_of_def)
  then show ?thesis using d by (auto simp: pairset_def)
qed

lemma found_fold: "fold (\<lambda>ck found. if ck = high then True else found) highs b
                     \<longleftrightarrow> b \<or> high \<in> set highs"
  by (induction highs arbitrary: b) auto

lemma pairset_smap_update:
  "pairset (smap_update k v cl) = {(lo, hi). lo \<noteq> k \<and> (lo, hi) \<in> pairset cl} \<union> {(k, hi) | hi. hi \<in> set v}"
  by (auto simp: pairset_def map_of_smap_update split: if_splits)

lemma checklookup_add_pairset:
  "pairset (checklookup_add lid nb cl) =
     insert (ordered_pair lid nb) (pairset cl)"
proof -
  define low where "low = (if lid < nb then lid else nb)"
  define high where "high = (if lid < nb then nb else lid)"
  define cl1 where "cl1 = (if map_of cl low = None then smap_update low [] cl else cl)"
  define highs where "highs = (case map_of cl1 low of None \<Rightarrow> [] | Some v \<Rightarrow> v)"
  have p1: "pairset cl1 = pairset cl"
    unfolding cl1_def by (auto simp: pairset_smap_update) (auto simp: pairset_def)
  have m1: "map_of cl1 low = Some highs"
    unfolding highs_def cl1_def by (auto simp: map_of_smap_update)
  have hs: "hi \<in> set highs \<longleftrightarrow> (low, hi) \<in> pairset cl1" for hi
    using m1 by (simp add: pairset_def)
  have "checklookup_add lid nb cl =
      (if \<not> (False \<or> high \<in> set highs) then smap_update low (highs @ [high]) cl1 else cl1)"
    unfolding checklookup_add_def Let_def found_fold low_def high_def cl1_def highs_def
    by (rule refl)
  then have eq: "checklookup_add lid nb cl =
      (if high \<in> set highs then cl1 else smap_update low (highs @ [high]) cl1)"
    by simp
  have "pairset (checklookup_add lid nb cl) = insert (low, high) (pairset cl1)"
  proof (cases "high \<in> set highs")
    case True
    then show ?thesis using eq hs by auto
  next
    case False
    then have "pairset (checklookup_add lid nb cl)
        = {(lo, hi). lo \<noteq> low \<and> (lo, hi) \<in> pairset cl1} \<union> {(low, hi) | hi. hi \<in> set (highs @ [high])}"
      using eq by (simp add: pairset_smap_update)
    also have "\<dots> = insert (low, high) (pairset cl1)"
      using hs by auto
    finally show ?thesis .
  qed
  then show ?thesis unfolding p1 low_def high_def ordered_pair_def by simp
qed

lemma checklookup_add_sorted:
  "sorted_wrt (<) (map fst cl) \<Longrightarrow> sorted_wrt (<) (map fst (checklookup_add lid nb cl))"
  by (simp add: checklookup_add_def Let_def sorted_smap_update)

lemma fold_checklookup_add:
  "sorted_wrt (<) (map fst cl) \<Longrightarrow>
   sorted_wrt (<) (map fst (fold (checklookup_add lid) nbs cl))
   \<and> pairset (fold (checklookup_add lid) nbs cl) =
       pairset cl \<union> ordered_pair lid ` set nbs"
proof (induction nbs arbitrary: cl)
  case Nil
  then show ?case by simp
next
  case (Cons nb nbs)
  have s: "sorted_wrt (<) (map fst (checklookup_add lid nb cl))"
    using Cons.prems by (rule checklookup_add_sorted)
  show ?case
    using Cons.IH[OF s] by (simp add: checklookup_add_pairset)
qed

lemma checklookup_loop:
  "\<forall>l \<in> set loc. neighbors hw l \<noteq> None \<Longrightarrow> sorted_wrt (<) (map fst cl) \<Longrightarrow>
   \<exists>li cl'. efold (checklookup_loc hw) loc (li0, cl, idx) = Inr (li, cl', idx + length loc)
     \<and> sorted_wrt (<) (map fst cl')
     \<and> pairset cl' = pairset cl \<union> (\<Union>l \<in> set loc. ordered_pair l ` set (map_index (neighbors hw) l))
     \<and> (\<forall>k. k \<notin> set loc \<longrightarrow> li k = li0 k)
     \<and> (distinct loc \<longrightarrow> (\<forall>i<length loc. li (loc ! i) = Some (idx + i)))"
proof (induction loc arbitrary: li0 cl idx)
  case Nil
  then show ?case by simp
next
  case (Cons l ls)
  obtain nbs where nbs: "neighbors hw l = Some nbs" using Cons.prems(1) by auto
  define cl1 where "cl1 = fold (checklookup_add l) nbs cl"
  have step: "checklookup_loc hw l (li0, cl, idx) = Inr (li0(l \<mapsto> idx), cl1, idx + 1)"
    by (simp add: checklookup_loc_def map_at_def nbs ebind_def cl1_def)
  have s1: "sorted_wrt (<) (map fst cl1)"
    and p1: "pairset cl1 = pairset cl \<union> ordered_pair l ` set nbs"
    using fold_checklookup_add[OF Cons.prems(2), of l nbs] by (simp_all add: cl1_def)
  have rest: "\<forall>l \<in> set ls. neighbors hw l \<noteq> None" using Cons.prems(1) by simp
  from Cons.IH[OF rest s1, of "li0(l \<mapsto> idx)" "idx + 1"]
  obtain li cl' where
    r: "efold (checklookup_loc hw) ls (li0(l \<mapsto> idx), cl1, idx + 1) = Inr (li, cl', idx + 1 + length ls)"
    and s: "sorted_wrt (<) (map fst cl')"
    and p: "pairset cl' = pairset cl1 \<union> (\<Union>l \<in> set ls. ordered_pair l ` set (map_index (neighbors hw) l))"
    and k: "\<forall>k. k \<notin> set ls \<longrightarrow> li k = (li0(l \<mapsto> idx)) k"
    and d: "distinct ls \<longrightarrow> (\<forall>i<length ls. li (ls ! i) = Some (idx + 1 + i))"
    by blast
  have e: "efold (checklookup_loc hw) (l # ls) (li0, cl, idx) = Inr (li, cl', idx + length (l # ls))"
    using step r by (simp add: ebind_def)
  have mi: "map_index (neighbors hw) l = nbs" by (simp add: map_index_def nbs)
  have p': "pairset cl' = pairset cl
      \<union> (\<Union>l \<in> set (l # ls). ordered_pair l ` set (map_index (neighbors hw) l))"
    unfolding p p1 using mi by auto
  have k': "\<forall>k. k \<notin> set (l # ls) \<longrightarrow> li k = li0 k" using k by simp
  have d': "distinct (l # ls) \<longrightarrow> (\<forall>i<length (l # ls). li ((l # ls) ! i) = Some (idx + i))"
  proof (intro impI allI)
    fix i assume dl: "distinct (l # ls)" and i: "i < length (l # ls)"
    show "li ((l # ls) ! i) = Some (idx + i)"
    proof (cases i)
      case 0
      have "l \<notin> set ls" using dl by simp
      then show ?thesis using k 0 by simp
    next
      case (Suc j)
      then show ?thesis using d dl i by simp
    qed
  qed
  show ?case using e s p' k' d' by blast
qed

lemma distinct_checkpairs_of:
  assumes "sorted_wrt (<) (map fst cl)" and "\<forall>kv \<in> set cl. distinct (snd kv)"
  shows "distinct (checkpairs_of cl)"
  using assms
proof (induction cl)
  case Nil
  then show ?case by (simp add: checkpairs_of_def)
next
  case (Cons kv cl)
  obtain k v where kv: "kv = (k, v)" by (cases kv)
  have ih: "distinct (checkpairs_of cl)" using Cons by simp
  have gt: "\<forall>x \<in> set cl. k < fst x" using Cons.prems(1) kv by auto
  have here: "distinct (map (Pair k) v)"
    using Cons.prems(2) kv by (simp add: distinct_map inj_on_def)
  have apart: "set (map (Pair k) v) \<inter> set (checkpairs_of cl) = {}"
    using gt by (auto simp: checkpairs_of_def)
  have "checkpairs_of (kv # cl) = map (Pair k) v @ checkpairs_of cl"
    by (simp add: checkpairs_of_def kv)
  then show ?case using ih here apart by simp
qed

lemma smap_update_values:
  assumes "\<forall>kv \<in> set cl. P (snd kv)" and "P v"
  shows "\<forall>kv \<in> set (smap_update k v cl). P (snd kv)"
  using assms by (induction k v cl rule: smap_update.induct) auto

lemma map_of_values:
  assumes "\<forall>kv \<in> set cl. P (snd kv)" and "map_of cl k = Some v"
  shows "P v"
  using assms map_of_SomeD by fastforce

lemma checklookup_add_distinct:
  assumes "\<forall>kv \<in> set cl. distinct (snd kv)"
  shows "\<forall>kv \<in> set (checklookup_add lid nb cl). distinct (snd kv)"
proof -
  define low where "low = (if lid < nb then lid else nb)"
  define high where "high = (if lid < nb then nb else lid)"
  define cl1 where "cl1 = (if map_of cl low = None then smap_update low [] cl else cl)"
  define highs where "highs = (case map_of cl1 low of None \<Rightarrow> [] | Some v \<Rightarrow> v)"
  have d1: "\<forall>kv \<in> set cl1. distinct (snd kv)"
    unfolding cl1_def
    using assms smap_update_values[where P = distinct and v = "[]" and k = low, OF assms]
    by simp
  have dh: "distinct highs"
  proof (cases "map_of cl1 low")
    case None
    then show ?thesis by (simp add: highs_def)
  next
    case (Some v)
    then show ?thesis using map_of_values[OF d1 Some] by (simp add: highs_def)
  qed
  have "checklookup_add lid nb cl =
      (if \<not> (False \<or> high \<in> set highs) then smap_update low (highs @ [high]) cl1 else cl1)"
    unfolding checklookup_add_def Let_def found_fold low_def high_def cl1_def highs_def
    by (rule refl)
  then have eq: "checklookup_add lid nb cl =
      (if high \<in> set highs then cl1 else smap_update low (highs @ [high]) cl1)"
    by simp
  show ?thesis
  proof (cases "high \<in> set highs")
    case True
    then show ?thesis using eq d1 by simp
  next
    case False
    then have "distinct (highs @ [high])" using dh by simp
    from smap_update_values[OF d1 this, of low] show ?thesis using eq False by simp
  qed
qed

lemma fold_checklookup_add_distinct:
  "\<forall>kv \<in> set cl. distinct (snd kv) \<Longrightarrow>
   \<forall>kv \<in> set (fold (checklookup_add lid) nbs cl). distinct (snd kv)"
proof (induction nbs arbitrary: cl)
  case Nil
  then show ?case by simp
next
  case (Cons nb nbs)
  have "\<forall>kv \<in> set (checklookup_add lid nb cl). distinct (snd kv)"
    using Cons.prems by (rule checklookup_add_distinct)
  from Cons.IH[OF this] show ?case by simp
qed

lemma checklookup_loop_distinct:
  "efold (checklookup_loc hw) loc (li0, cl, idx) = Inr (li, cl', idx') \<Longrightarrow>
   \<forall>kv \<in> set cl. distinct (snd kv) \<Longrightarrow> \<forall>kv \<in> set cl'. distinct (snd kv)"
proof (induction loc arbitrary: li0 cl idx)
  case Nil
  then show ?case by simp
next
  case (Cons l ls)
  from Cons.prems(1) obtain st where
    st: "checklookup_loc hw l (li0, cl, idx) = Inr st"
    and rest: "efold (checklookup_loc hw) ls st = Inr (li, cl', idx')"
    by (cases "checklookup_loc hw l (li0, cl, idx)") simp_all
  from st obtain nbs where
    "st = (li0(l \<mapsto> idx), fold (checklookup_add l) nbs cl, idx + 1)"
    by (auto simp: checklookup_loc_def ebind_Inr_iff)
  then have rest': "efold (checklookup_loc hw) ls
      (li0(l \<mapsto> idx), fold (checklookup_add l) nbs cl, idx + 1) = Inr (li, cl', idx')"
    using rest by simp
  have "\<forall>kv \<in> set (fold (checklookup_add l) nbs cl). distinct (snd kv)"
    using Cons.prems(2) by (rule fold_checklookup_add_distinct)
  from Cons.IH[OF rest' this] show ?case .
qed

lemma efold_mark:
  assumes body: "\<And>p r. p < m \<Longrightarrow> length r = n \<Longrightarrow>
                   body p r = Inr (if h p then r[a p := True, b p := True] else r)"
  shows "set sched \<subseteq> {0..<m} \<Longrightarrow> length r = n \<Longrightarrow>
         \<exists>r'. efold body sched r = Inr r' \<and> length r' = n
              \<and> (\<forall>i<n. r' ! i \<longleftrightarrow> r ! i \<or> (\<exists>p \<in> set sched. h p \<and> (i = a p \<or> i = b p)))"
proof (induction sched arbitrary: r)
  case Nil
  then show ?case by simp
next
  case (Cons p ps)
  define r1 where "r1 = (if h p then r[a p := True, b p := True] else r)"
  have p: "p < m" using Cons.prems(1) by simp
  have step: "body p r = Inr r1" unfolding r1_def using p Cons.prems(2) by (rule body)
  have l1: "length r1 = n" using Cons.prems(2) by (simp add: r1_def)
  have ps: "set ps \<subseteq> {0..<m}" using Cons.prems(1) by simp
  from Cons.IH[OF ps l1] obtain r' where
    e: "efold body ps r1 = Inr r'" and l: "length r' = n"
    and c: "\<forall>i<n. r' ! i \<longleftrightarrow> r1 ! i \<or> (\<exists>p \<in> set ps. h p \<and> (i = a p \<or> i = b p))"
    by blast
  have r1: "r1 ! i \<longleftrightarrow> r ! i \<or> (h p \<and> (i = a p \<or> i = b p))" if "i < n" for i
  proof -
    have il: "i < length r" using that Cons.prems(2) by simp
    have "r[a p := True, b p := True] ! i \<longleftrightarrow> r ! i \<or> i = a p \<or> i = b p"
      using il by (cases "i = b p"; cases "i = a p") auto
    then show ?thesis by (simp add: r1_def)
  qed
  have "efold body (p # ps) r = Inr r'" using step e by (simp add: ebind_def)
  moreover have "\<forall>i<n. r' ! i \<longleftrightarrow> r ! i \<or> (\<exists>q \<in> set (p # ps). h q \<and> (i = a q \<or> i = b q))"
    using c r1 by auto
  ultimately show ?case using l by blast
qed

lemma loc_position_xy_multi_eq:
  assumes rt: "omp_runs_each_once rt"
      and len: "length xy = length loc" and lf: "length fpos = length loc"
      and placed: "\<forall>i<length loc. loc_position_xy G hw (loc ! i) (xy ! i) = Inr (fpos ! i)"
  shows "loc_position_xy_multi G rt hw loc xy threads = Inr fpos"
proof -
  define n where "n = length loc"
  define sched where "sched = omp_order rt (run_threads_of rt threads) n"
  define r0 where "r0 = replicate n (False, shape0 G, shape0 G)"
  have s: "set sched = {0..<n}"
    using rt by (simp add: omp_runs_each_once_def sched_def)
  have l0: "length r0 = n" by (simp add: r0_def)
  have body: "\<And>t r. t < n \<Longrightarrow> length r = n \<Longrightarrow>
      loc_position_xy_multi_body G hw loc xy t r = Inr (r[t := fpos ! t])"
    using len placed by (simp add: loc_position_xy_multi_body_def n_def)
  have "loc_position_xy_multi G rt hw loc xy threads
      = efold (loc_position_xy_multi_body G hw loc xy) sched r0"
    by (simp add: loc_position_xy_multi_def omp_for_def Let_def sched_def r0_def n_def)
  also have "\<dots> = Inr (map (\<lambda>i. if i \<in> set sched then fpos ! i else r0 ! i) [0..<n])"
    using body l0 s by (intro efold_cellwise) simp_all
  also have "map (\<lambda>i. if i \<in> set sched then fpos ! i else r0 ! i) [0..<n] = map ((!) fpos) [0..<n]"
    using s by (intro map_cong) simp_all
  also have "map ((!) fpos) [0..<n] = fpos"
    unfolding n_def lf[symmetric] by (rule map_nth)
  finally show ?thesis .
qed

lemma ordered_pair_cases:
  "ordered_pair l nb = (lo, hi) \<Longrightarrow> (lo = l \<and> hi = nb \<and> l < nb) \<or> (lo = nb \<and> hi = l \<and> \<not> l < nb)"
  by (auto simp: ordered_pair_def split: if_splits)

text \<open>
  C1 (as amended).  For a list of pairwise distinct hardware locations that contains every
  neighbor of each of its members, with one target position per location,
  \<^verbatim>\<open>check_collisions_xy\<close> returns a boolean vector of the same length in which entry \<open>i\<close> is
  true exactly when some supplied location \<open>j\<close> is a neighbor of location \<open>i\<close> (one is in the
  other's neighbor list) and the pair collides: the test is made on the placement of the lower
  id first, and is true when either placement is unreachable or one of the three intersections
  \<open>\<phi>\<^sub>1\<phi>\<^sub>2\<close>, \<open>\<theta>\<^sub>1\<phi>\<^sub>2\<close>, \<open>\<theta>\<^sub>2\<phi>\<^sub>1\<close> holds.  Entries of locations in no colliding pair are false.
  The pairs checked are those of the list \<^verbatim>\<open>checkpairs\<close> built from \<^verbatim>\<open>checklookup\<close>, one iteration
  of the loop over \<^verbatim>\<open>checkpairs\<close> for each: this list has no repetition, and its members are
  exactly the pairs (lower id, higher id) of a supplied location and one of its neighbors, so
  that each unordered neighbor pair is checked once.  The result does not depend on the order
  in which the runtime executes the iterations.
\<close>

theorem check_collisions_xy_closed:
  assumes rt: "omp_runs_each_once rt"
      and dl: "distinct loc"
      and len: "length xy = length loc" and lf: "length fpos = length loc"
      and placed: "\<forall>i<length loc. loc_position_xy G hw (loc ! i) (xy ! i) = Inr (fpos ! i)"
      and closed: "\<forall>l \<in> set loc. \<exists>nbs. neighbors hw l = Some nbs \<and> set nbs \<subseteq> set loc"
  shows "\<exists>result loc_indx checklookup.
             check_collisions_xy G rt hw loc xy threads = Inr result
           \<and> efold (checklookup_loc hw) loc (Map.empty, [], 0)
                 = Inr (loc_indx, checklookup, length loc)
           \<and> distinct (checkpairs_of checklookup)
           \<and> set (checkpairs_of checklookup)
                 = (\<Union>l \<in> set loc. ordered_pair l ` set (map_index (neighbors hw) l))
           \<and> omp_for rt (run_threads_of rt threads) (length (checkpairs_of checklookup))
                 (check_pair G fpos loc_indx (checkpairs_of checklookup))
                 (replicate (length loc) False) = Inr result
           \<and> length result = length loc
           \<and> (\<forall>i<length loc. result ! i \<longleftrightarrow>
                 (\<exists>j<length loc.
                     (loc ! j \<in> set (map_index (neighbors hw) (loc ! i))
                      \<or> loc ! i \<in> set (map_index (neighbors hw) (loc ! j)))
                     \<and> (if loc ! i < loc ! j then shapes_hit G (fpos ! i) (fpos ! j)
                         else shapes_hit G (fpos ! j) (fpos ! i))))"
proof -
  define n where "n = length loc"
  define nbr where "nbr = (\<lambda>l. set (map_index (neighbors hw) l))"
  have known: "\<forall>l \<in> set loc. neighbors hw l \<noteq> None" using closed by auto
  have sub: "nbr l \<subseteq> set loc" if "l \<in> set loc" for l
  proof -
    from bspec[OF closed that]
    obtain nbs where "neighbors hw l = Some nbs" "set nbs \<subseteq> set loc"
      by (elim exE conjE)
    then show ?thesis by (simp add: nbr_def map_index_def)
  qed
  from checklookup_loop[OF known, of "[]" Map.empty 0]
  obtain li cl where
    build: "efold (checklookup_loc hw) loc (Map.empty, [], 0) = Inr (li, cl, 0 + length loc)"
    and srt: "sorted_wrt (<) (map fst cl)"
    and ps: "pairset cl = pairset [] \<union> (\<Union>l \<in> set loc. ordered_pair l ` nbr l)"
    and ix: "distinct loc \<longrightarrow> (\<forall>i<length loc. li (loc ! i) = Some (0 + i))"
    unfolding nbr_def by auto
  have ix: "li (loc ! i) = Some i" if "i < n" for i using ix dl that by (simp add: n_def)
  define cp where "cp = checkpairs_of cl"
  have cps: "set cp = (\<Union>l \<in> set loc. ordered_pair l ` nbr l)"
    unfolding cp_def set_checkpairs_of[OF srt] ps by (simp add: pairset_def)
  define a where "a = (\<lambda>p. the (li (fst (cp ! p))))"
  define b where "b = (\<lambda>p. the (li (snd (cp ! p))))"
  define h where "h = (\<lambda>p. shapes_hit G (fpos ! a p) (fpos ! b p))"
  have inloc: "fst (cp ! p) \<in> set loc \<and> snd (cp ! p) \<in> set loc" if "p < length cp" for p
  proof -
    have "cp ! p \<in> set cp" using that by simp
    then obtain l nb where l: "l \<in> set loc" "nb \<in> nbr l" "cp ! p = ordered_pair l nb"
      unfolding cps by auto
    have "nb \<in> set loc" using sub l by auto
    then show ?thesis using l by (auto simp: ordered_pair_def)
  qed
  have ab: "a p < n \<and> b p < n \<and> li (fst (cp ! p)) = Some (a p) \<and> li (snd (cp ! p)) = Some (b p)
            \<and> loc ! a p = fst (cp ! p) \<and> loc ! b p = snd (cp ! p)"
    if pl: "p < length cp" for p
  proof -
    obtain i j where i: "i < n" "loc ! i = fst (cp ! p)" and j: "j < n" "loc ! j = snd (cp ! p)"
      using inloc[OF pl] unfolding n_def by (metis in_set_conv_nth)
    have "li (fst (cp ! p)) = Some i" "li (snd (cp ! p)) = Some j"
      using ix i j by metis+
    then show ?thesis using i j by (simp add: a_def b_def)
  qed
  have body: "check_pair G fpos li cp p r
        = Inr (if h p then r[a p := True, b p := True] else r)"
    if "p < length cp" "length r = n" for p r
  proof -
    note f = ab[OF that(1)]
    have "vec_at cp p = Inr (fst (cp ! p), snd (cp ! p))" using that(1) by simp
    moreover have "map_at li (fst (cp ! p)) = Inr (a p)" "map_at li (snd (cp ! p)) = Inr (b p)"
      using f by (simp_all add: map_at_def)
    moreover have "vec_at fpos (a p) = Inr (fpos ! a p)" "vec_at fpos (b p) = Inr (fpos ! b p)"
      using f lf by (simp_all add: n_def)
    ultimately show ?thesis
      using f that(2) by (simp add: check_pair_def ebind_def h_def case_prod_beta)
  qed
  define sched where "sched = omp_order rt (run_threads_of rt threads) (length cp)"
  have s: "set sched = {0..<length cp}"
    using rt by (simp add: omp_runs_each_once_def sched_def)
  have "set sched \<subseteq> {0..<length cp}" "length (replicate n False) = n" using s by simp_all
  from efold_mark[of "length cp" n "check_pair G fpos li cp" h a b, OF body this]
  obtain res where
    run: "efold (check_pair G fpos li cp) sched (replicate n False) = Inr res"
    and lres: "length res = n"
    and marks: "\<forall>i<n. res ! i \<longleftrightarrow> replicate n False ! i \<or> (\<exists>p \<in> set sched. h p \<and> (i = a p \<or> i = b p))"
    by blast
  have fp: "loc_position_xy_multi G rt hw loc xy threads = Inr fpos"
    using rt len lf placed by (rule loc_position_xy_multi_eq)
  have whole: "check_collisions_xy G rt hw loc xy threads = Inr res"
    using run build
    by (simp add: check_collisions_xy_def fp Let_def ebind_def omp_for_def sched_def cp_def n_def)
  have char: "res ! i \<longleftrightarrow>
      (\<exists>j<n. (loc ! j \<in> nbr (loc ! i) \<or> loc ! i \<in> nbr (loc ! j))
              \<and> (if loc ! i < loc ! j then shapes_hit G (fpos ! i) (fpos ! j)
                  else shapes_hit G (fpos ! j) (fpos ! i)))" if i: "i < n" for i
  proof
    assume "res ! i"
    then obtain p where p: "p < length cp" "h p" "i = a p \<or> i = b p"
      using marks i s by auto
    note f = ab[OF p(1)]
    have "cp ! p \<in> set cp" using p(1) by simp
    then obtain l nb where l: "l \<in> set loc" "nb \<in> nbr l" "ordered_pair l nb = cp ! p"
      unfolding cps by auto
    have o: "(fst (cp ! p) = l \<and> snd (cp ! p) = nb \<and> l < nb)
           \<or> (fst (cp ! p) = nb \<and> snd (cp ! p) = l \<and> \<not> l < nb)"
      using ordered_pair_cases[of l nb "fst (cp ! p)" "snd (cp ! p)"] l(3) by simp
    have le: "loc ! a p \<le> loc ! b p" using o f by auto
    have rel: "loc ! b p \<in> nbr (loc ! a p) \<or> loc ! a p \<in> nbr (loc ! b p)"
      using o f l(2) by auto
    have hit: "shapes_hit G (fpos ! a p) (fpos ! b p)" using p(2) by (simp add: h_def)
    have same: "a p = b p" if "loc ! a p = loc ! b p"
    proof -
      have "li (fst (cp ! p)) = li (snd (cp ! p))" using that f by simp
      then show ?thesis using f by simp
    qed
    show "\<exists>j<n. (loc ! j \<in> nbr (loc ! i) \<or> loc ! i \<in> nbr (loc ! j))
              \<and> (if loc ! i < loc ! j then shapes_hit G (fpos ! i) (fpos ! j)
                  else shapes_hit G (fpos ! j) (fpos ! i))"
    proof (cases "i = a p")
      case True
      show ?thesis
      proof (intro exI[of _ "b p"] conjI)
        show "b p < n" using f by simp
        show "loc ! b p \<in> nbr (loc ! i) \<or> loc ! i \<in> nbr (loc ! b p)" using rel True by simp
        show "if loc ! i < loc ! b p then shapes_hit G (fpos ! i) (fpos ! b p)
              else shapes_hit G (fpos ! b p) (fpos ! i)"
          using hit le same True by (cases "loc ! a p = loc ! b p") auto
      qed
    next
      case False
      then have ib: "i = b p" using p(3) by simp
      show ?thesis
      proof (intro exI[of _ "a p"] conjI)
        show "a p < n" using f by simp
        show "loc ! a p \<in> nbr (loc ! i) \<or> loc ! i \<in> nbr (loc ! a p)" using rel ib by auto
        show "if loc ! i < loc ! a p then shapes_hit G (fpos ! i) (fpos ! a p)
              else shapes_hit G (fpos ! a p) (fpos ! i)"
          using hit le ib by auto
      qed
    qed
  next
    assume "\<exists>j<n. (loc ! j \<in> nbr (loc ! i) \<or> loc ! i \<in> nbr (loc ! j))
              \<and> (if loc ! i < loc ! j then shapes_hit G (fpos ! i) (fpos ! j)
                  else shapes_hit G (fpos ! j) (fpos ! i))"
    then obtain j where j: "j < n" "loc ! j \<in> nbr (loc ! i) \<or> loc ! i \<in> nbr (loc ! j)"
      and hit: "if loc ! i < loc ! j then shapes_hit G (fpos ! i) (fpos ! j)
                  else shapes_hit G (fpos ! j) (fpos ! i)"
      by blast
    have mem: "loc ! i \<in> set loc" "loc ! j \<in> set loc" using i j(1) by (simp_all add: n_def)
    have "ordered_pair (loc ! i) (loc ! j) \<in> set cp \<or> ordered_pair (loc ! j) (loc ! i) \<in> set cp"
      unfolding cps using j(2) mem by blast
    moreover have "ordered_pair (loc ! j) (loc ! i) = ordered_pair (loc ! i) (loc ! j)"
      by (auto simp: ordered_pair_def)
    ultimately have "ordered_pair (loc ! i) (loc ! j) \<in> set cp" by simp
    then obtain p where p: "p < length cp" "cp ! p = ordered_pair (loc ! i) (loc ! j)"
      by (metis in_set_conv_nth)
    note f = ab[OF p(1)]
    have idx: "a p = (if loc ! i < loc ! j then i else j)" "b p = (if loc ! i < loc ! j then j else i)"
      using f p(2) ix i j(1) by (auto simp: ordered_pair_def a_def b_def)
    have "h p" using hit idx by (auto simp: h_def)
    moreover have "i = a p \<or> i = b p" using idx by auto
    ultimately show "res ! i" using marks i s p(1) by auto
  qed
  have build': "efold (checklookup_loc hw) loc (Map.empty, [], 0) = Inr (li, cl, length loc)"
    using build by simp
  have "\<forall>kv \<in> set ([] :: (int \<times> int list) list). distinct (snd kv)" by simp
  with build' have "\<forall>kv \<in> set cl. distinct (snd kv)" by (rule checklookup_loop_distinct)
  with srt have dcp: "distinct (checkpairs_of cl)" by (rule distinct_checkpairs_of)
  have scp: "set (checkpairs_of cl)
      = (\<Union>l \<in> set loc. ordered_pair l ` set (map_index (neighbors hw) l))"
    using cps unfolding cp_def nbr_def .
  have loop: "omp_for rt (run_threads_of rt threads) (length (checkpairs_of cl))
      (check_pair G fpos li (checkpairs_of cl)) (replicate (length loc) False) = Inr res"
    using run by (simp add: omp_for_def sched_def cp_def n_def)
  have chr: "\<forall>i<length loc. res ! i \<longleftrightarrow>
                 (\<exists>j<length loc.
                     (loc ! j \<in> set (map_index (neighbors hw) (loc ! i))
                      \<or> loc ! i \<in> set (map_index (neighbors hw) (loc ! j)))
                     \<and> (if loc ! i < loc ! j then shapes_hit G (fpos ! i) (fpos ! j)
                         else shapes_hit G (fpos ! j) (fpos ! i)))"
    using char unfolding n_def nbr_def by blast
  have lr: "length res = length loc" using lres by (simp add: n_def)
  show ?thesis
    using whole build' dcp scp loop lr chr by blast
qed

lemma backwards_runtime_once: "omp_runs_each_once backwards_runtime"
  by (simp add: omp_runs_each_once_def backwards_runtime_def)

lemma two_positioners_neighbors:
  "neighbors two_positioners 1 = Some [2]" "neighbors two_positioners 2 = Some [1]"
  by (simp_all add: two_positioners_def)

theorem check_collisions_xy_closed_witness:
  "\<exists>result loc_indx.
      check_collisions_xy point_geom backwards_runtime two_positioners
        [1, 2] [(6, 0), (12, 0)] 0 = Inr result
      \<and> length result = 2 \<and> result ! 0 \<and> result ! 1
      \<and> efold (checklookup_loc two_positioners) [1, 2] (Map.empty, [], 0)
            = Inr (loc_indx, [(1, [2])], 2)
      \<and> checkpairs_of [(1, [2])] = [(1, 2)]"
proof -
  define fpos where "fpos = [(False, [(0::real, 0::real)], [(3::real, 0::real), (6, 0)]),
                             (False, [(6, 0)], [(9, 0), (12, 0)])]"
  have placed: "\<forall>i<length [1, 2 :: int].
      loc_position_xy point_geom two_positioners ([1, 2] ! i) ([(6, 0), (12, 0)] ! i) = Inr (fpos ! i)"
    using place1 place2 by (simp add: fpos_def less_Suc_eq numeral_2_eq_2)
  have closed: "\<forall>l \<in> set [1, 2 :: int].
      \<exists>nbs. neighbors two_positioners l = Some nbs \<and> set nbs \<subseteq> set [1, 2]"
    by (simp add: two_positioners_neighbors)
  have hit: "shapes_hit point_geom (fpos ! 0) (fpos ! 1)"
    by (simp add: fpos_def shapes_hit_def point_geom_def)
  have d: "distinct [1, 2 :: int]" by simp
  have len: "length [(6, 0), (12, 0) :: dpair] = length [1, 2 :: int]" by simp
  have lf: "length fpos = length [1, 2 :: int]" by (simp add: fpos_def)
  from check_collisions_xy_closed [where threads = 0, OF backwards_runtime_once d len lf placed closed]
  obtain result loc_indx checklookup where
    r: "check_collisions_xy point_geom backwards_runtime two_positioners [1, 2] [(6, 0), (12, 0)] 0
          = Inr result"
    and b: "efold (checklookup_loc two_positioners) [1, 2] (Map.empty, [], 0)
          = Inr (loc_indx, checklookup, length [1, 2 :: int])"
    and l: "length result = length [1, 2 :: int]"
    and c: "\<forall>i<length [1, 2 :: int]. result ! i \<longleftrightarrow>
                 (\<exists>j<length [1, 2 :: int].
                     ([1, 2] ! j \<in> set (map_index (neighbors two_positioners) ([1, 2] ! i))
                      \<or> [1, 2] ! i \<in> set (map_index (neighbors two_positioners) ([1, 2] ! j)))
                     \<and> (if [1, 2 :: int] ! i < [1, 2] ! j then shapes_hit point_geom (fpos ! i) (fpos ! j)
                         else shapes_hit point_geom (fpos ! j) (fpos ! i)))"
    by blast
  have "efold (checklookup_loc two_positioners) [1, 2] (Map.empty, [], 0)
      = Inr ([1 \<mapsto> 0, 2 \<mapsto> 1], [(1, [2])], 2)"
    by (simp add: checklookup_loc_def map_at_def two_positioners_neighbors checklookup_add_def)
  with b have cl: "checklookup = [(1, [2])]" by simp
  have cp: "checkpairs_of [(1, [2 :: int])] = [(1 :: int, 2)]" by (simp add: checkpairs_of_def)
  have "result ! 0"
    using c[rule_format, of 0] hit
    by (auto simp: map_index_def two_positioners_neighbors intro!: exI[of _ 1])
  moreover have "result ! 1"
    using c[rule_format, of 1] hit
    by (auto simp: map_index_def two_positioners_neighbors intro!: exI[of _ 0])
  ultimately show ?thesis using r l b cl cp by auto
qed

text \<open>
  The claim as stated fails: location 1 is supplied alone, its neighbor 2 is not.  The pair
  \<open>(1, 2)\<close> is listed all the same, and the look-up of 2 in \<^verbatim>\<open>loc_indx\<close> throws.
\<close>

theorem check_collisions_xy_counterexample:
  "check_collisions_xy point_geom backwards_runtime two_positioners [1] [(6, 0)] 0
     = Inl Out_of_range"
proof -
  have fp: "loc_position_xy_multi point_geom backwards_runtime two_positioners [1] [(6, 0)] 0
      = Inr [(False, [(0, 0)], [(3, 0), (6, 0)])]"
    by (simp add: loc_position_xy_multi_def omp_for_def backwards_runtime_def
        loc_position_xy_multi_body_def place1)
  have cl: "efold (checklookup_loc two_positioners) [1] (Map.empty, [], 0)
      = Inr ([1 \<mapsto> 0], [(1, [2])], 1)"
    by (simp add: checklookup_loc_def map_at_def two_positioners_neighbors checklookup_add_def)
  show ?thesis
    unfolding check_collisions_xy_def Let_def fp cl
    by (simp add: checkpairs_of_def omp_for_def backwards_runtime_def check_pair_def map_at_def)
qed

section \<open>The radial inversion as the code runs it\<close>

text \<open>
  The test of the loop of \<^verbatim>\<open>radial_dist2ang\<close> is made on the integer part of \<^verbatim>\<open>error\<close>: a
  pass is followed by another when that integer is not zero, the loop is left when it is
  zero, that is when \<open>\<bar>error\<bar> < 1\<close>, and the run is undefined when \<^verbatim>\<open>error\<close> does not fit an
  \<^verbatim>\<open>int\<close>.
\<close>

lemma radial_dist2ang_pass:
  assumes e: "int_of_double e = Some i" and i: "i \<noteq> 0" "i \<noteq> - 2147483648"
  shows "radial_dist2ang_loop d t e
           = radial_dist2ang_loop d (newton_step d t) (radial_ang2dist t - d)"
proof -
  have "1 \<le> \<bar>i\<bar>" using i(1) by simp
  then have "(1 :: real) \<le> of_int \<bar>i\<bar>" by linarith
  then have big: "(1 / 10 ^ 7 :: real) < of_int \<bar>i\<bar>" by simp
  show ?thesis
    by (subst radial_dist2ang_loop.simps)
      (simp only: e i(2) big abs_int_def Let_def newton_step_def option.case if_True if_False)
qed

lemma radial_dist2ang_exit:
  assumes "int_of_double e = Some 0"
  shows "radial_dist2ang_loop d t e = Some t"
  using assms by (subst radial_dist2ang_loop.simps) (simp add: abs_int_def)


lemma int_of_double_zero_iff: "int_of_double e = Some 0 \<longleftrightarrow> \<bar>e\<bar> < 1"
proof -
  have "trunc e = 0 \<longleftrightarrow> \<bar>e\<bar> < 1"
  proof (cases "0 \<le> e")
    case True
    then show ?thesis by (simp add: trunc_def floor_eq_iff)
  next
    case False
    then have "\<lceil>e\<rceil> = 0 \<longleftrightarrow> - 1 < e" by (simp add: ceiling_eq_iff)
    then show ?thesis using False by (simp add: trunc_def)
  qed
  then show ?thesis by (auto simp: int_of_double_def)
qed

lemma radial_dist2ang_exit_below_one:
  assumes "\<bar>e\<bar> < 1"
  shows "radial_dist2ang_loop d t e = Some t"
  using assms radial_dist2ang_exit int_of_double_zero_iff by blast

lemma int_of_double_one: "int_of_double 1 = Some 1"
  by (simp add: int_of_double_def trunc_def)

lemma radial_ang2dist_poly: "radial_ang2dist t = ((829700 * t - 1750) * t + 13940) * t"
  by (simp add: radial_ang2dist_def radial_p_def algebra_simps)

lemmas newton_eval = newton_step_def radial_ang2dist_poly inv_delta_def delta_theta_def
  int_of_double_def trunc_def

subsection \<open>The inversion of the distance of \<open>0.02\<close> rad\<close>

lemma pass1_fifty:
  "int_of_double (radial_ang2dist (1 / 100) - radial_ang2dist (1 / 50)) = Some (- 144)"
  by (simp add: newton_eval)

lemma pass2_fifty:
  "int_of_double (radial_ang2dist (newton_step (radial_ang2dist (1 / 50)) (1 / 100))
     - radial_ang2dist (1 / 50)) = Some 3"
  by (simp add: newton_eval)

lemma pass3_fifty:
  "int_of_double (radial_ang2dist
       (newton_step (radial_ang2dist (1 / 50)) (newton_step (radial_ang2dist (1 / 50)) (1 / 100)))
     - radial_ang2dist (1 / 50)) = Some 0"
  by (simp add: newton_eval)

lemma returned_fifty:
  "radial_dist2ang (radial_ang2dist (1 / 50))
     = Some ((newton_step (radial_ang2dist (1 / 50)) ^^ 3) (1 / 100))"
  unfolding radial_dist2ang_def
  by (simp only: radial_dist2ang_pass[OF int_of_double_one] radial_dist2ang_pass[OF pass1_fifty]
      radial_dist2ang_pass[OF pass2_fifty] radial_dist2ang_exit[OF pass3_fifty]
      numeral_3_eq_3 funpow.simps o_apply id_apply)

lemma residual_fifty:
  "1 / 10 ^ 6 < \<bar>radial_ang2dist ((newton_step (radial_ang2dist (1 / 50)) ^^ 3) (1 / 100))
                  - radial_ang2dist (1 / 50)\<bar>"
  by (simp add: numeral_3_eq_3 newton_eval)

lemma angle_fifty:
  "\<bar>(newton_step (radial_ang2dist (1 / 50)) ^^ 3) (1 / 100) - 1 / 50\<bar> < 1 / 10 ^ 7"
  by (simp add: numeral_3_eq_3 newton_eval)

text \<open>
  C3.  The angle \<open>0.02\<close> rad lies between \<open>0\<close> and \<open>2\<close> degrees.  On its distance
  \<open>d = radial_ang2dist 0.02\<close> the loop of \<^verbatim>\<open>radial_dist2ang\<close> makes three passes and returns the
  third iterate from the initial guess \<open>0.01\<close>: the errors of the three passes have the integer
  parts \<open>-144\<close>, \<open>3\<close> and \<open>0\<close>.  The angle returned is within \<open>10\<^sup>-\<^sup>7\<close> rad of \<open>0.02\<close>, but its
  distance differs from \<open>d\<close> by more than \<open>10\<^sup>-\<^sup>6\<close>: the function has returned although
  \<open>\<bar>radial_ang2dist result - d\<bar> < 10\<^sup>-\<^sup>7\<close> does not hold.
\<close>

theorem radial_dist2ang_returns_early:
  "0 \<le> (1 / 50 :: real) \<and> 1 / 50 \<le> 2 * pi / 180
   \<and> radial_dist2ang (radial_ang2dist (1 / 50))
       = Some ((newton_step (radial_ang2dist (1 / 50)) ^^ 3) (1 / 100))
   \<and> \<bar>(newton_step (radial_ang2dist (1 / 50)) ^^ 3) (1 / 100) - 1 / 50\<bar> < 1 / 10 ^ 7
   \<and> 1 / 10 ^ 6 < \<bar>radial_ang2dist ((newton_step (radial_ang2dist (1 / 50)) ^^ 3) (1 / 100))
                     - radial_ang2dist (1 / 50)\<bar>"
proof -
  have "(1 / 50 :: real) \<le> 2 * pi / 180" using pi_ge_two by simp
  then show ?thesis using returned_fifty angle_fifty residual_fifty by simp
qed

section \<open>The range of \<^verbatim>\<open>xy2radec\<close>\<close>

text \<open>
  Whenever \<^verbatim>\<open>xy2radec\<close> returns, the right ascension is in \<open>[0, 360)\<close> and the declination in
  \<open>[-90, 90]\<close>, whatever angle the radial inversion has produced.
\<close>

lemma atan2_bounds: "- pi < atan2 y x \<and> atan2 y x \<le> pi"
proof -
  note b = arctan_bounded[of "y / x"]
  consider "0 < x" | "x < 0" "0 \<le> y" | "x < 0" "y < 0" | "x = 0" by linarith
  then show ?thesis
  proof cases
    case 1
    then show ?thesis using b by (simp add: atan2_def)
  next
    case 2
    then have "y / x \<le> 0" by (simp add: divide_nonneg_neg)
    then have "arctan (y / x) \<le> 0" using arctan_le_zero_iff by blast
    then show ?thesis using 2 b by (simp add: atan2_def)
  next
    case 3
    then have "0 < y / x" by (simp add: divide_neg_neg)
    then have "0 < arctan (y / x)" using zero_less_arctan_iff by blast
    then show ?thesis using 3 b by (simp add: atan2_def)
  next
    case 4
    have pp: "0 < pi" by simp
    consider "0 < y" | "y < 0" | "y = 0" by linarith
    then show ?thesis
    proof cases
      case 1
      then have "atan2 y x = pi / 2" using 4 by (simp add: atan2_def)
      then show ?thesis using pp by linarith
    next
      case 2
      then have "atan2 y x = - (pi / 2)" using 4 by (simp add: atan2_def)
      then show ?thesis using pp by linarith
    next
      case 3
      then have "atan2 y x = 0" using 4 by (simp add: atan2_def)
      then show ?thesis using pp by linarith
    qed
  qed
qed

lemma fmod_small:
  assumes "0 \<le> v" "v < m"
  shows "fmod v m = v"
proof -
  have m: "0 < m" using assms by simp
  have "0 \<le> v / m" "v / m < 1" using assms m by simp_all
  then have "\<lfloor>v / m\<rfloor> = 0" by linarith
  then show ?thesis using \<open>0 \<le> v / m\<close> by (simp add: fmod_def trunc_def)
qed

lemma unit_combination:
  fixes s c x z :: real
  assumes "s\<^sup>2 + c\<^sup>2 = 1" "x\<^sup>2 + z\<^sup>2 \<le> 1"
  shows "\<bar>s * x + c * z\<bar> \<le> 1"
proof -
  have "(s * x + c * z)\<^sup>2 + (s * z - c * x)\<^sup>2 = (s\<^sup>2 + c\<^sup>2) * (x\<^sup>2 + z\<^sup>2)"
    by (simp add: power2_eq_square algebra_simps)
  then have "(s * x + c * z)\<^sup>2 + (s * z - c * x)\<^sup>2 \<le> 1" using assms by simp
  moreover have "0 \<le> (s * z - c * x)\<^sup>2" by simp
  ultimately have "(s * x + c * z)\<^sup>2 \<le> 1" by linarith
  then show ?thesis by (simp add: abs_square_le_1)
qed

lemma xy2radec_in_range:
  assumes ret: "xy2radec tilera tiledec tiletheta x_mm y_mm = Some (ra, dec)"
  shows "0 \<le> ra \<and> ra < 360 \<and> - 90 \<le> dec \<and> dec \<le> 90"
proof -
  define radius_mm where "radius_mm = sqrt (x_mm * x_mm + y_mm * y_mm)"
  obtain radius_rad where rr: "radial_dist2ang radius_mm = Some radius_rad"
    using ret unfolding xy2radec_def Let_def radius_mm_def
    by (cases "radial_dist2ang (sqrt (x_mm * x_mm + y_mm * y_mm))") simp_all
  define q_rad where "q_rad = atan2 y_mm x_mm - tiletheta * (pi / 180)"
  define z4 where "z4 = sin (tiledec * (pi / 180)) * cos radius_rad
                        + cos (tiledec * (pi / 180)) * (- (- sin radius_rad) * sin q_rad)"
  define x3 where "x3 = cos (tiledec * (pi / 180)) * cos radius_rad
                        - sin (tiledec * (pi / 180)) * (- (- sin radius_rad) * sin q_rad)"
  define y3 where "y3 = - sin radius_rad * cos q_rad"
  define ra0 where "ra0 = atan2 (sin (tilera * (pi / 180)) * x3 + cos (tilera * (pi / 180)) * y3)
                                (cos (tilera * (pi / 180)) * x3 - sin (tilera * (pi / 180)) * y3)"
  define ra_rad where "ra_rad = (if ra0 < 0 then 2 * pi + ra0 else ra0)"
  have eq: "xy2radec tilera tiledec tiletheta x_mm y_mm
      = Some (fmod (ra_rad * (180 / pi)) 360, (pi / 2 - arccos z4) * (180 / pi))"
    by (simp add: xy2radec_def Let_def rr[unfolded radius_mm_def] ra_rad_def ra0_def x3_def y3_def
        z4_def q_rad_def)
  have b0: "- pi < ra0 \<and> ra0 \<le> pi" unfolding ra0_def by (rule atan2_bounds)
  have pp: "0 < pi" by simp
  have ra_b: "0 \<le> ra_rad \<and> ra_rad < 2 * pi"
  proof (cases "ra0 < 0")
    case True
    then have "ra_rad = 2 * pi + ra0" by (simp add: ra_rad_def)
    then show ?thesis using b0 True pp by linarith
  next
    case False
    then have "ra_rad = ra0" by (simp add: ra_rad_def)
    then show ?thesis using b0 False pp by linarith
  qed
  have v: "0 \<le> ra_rad * (180 / pi)" "ra_rad * (180 / pi) < 360"
    using ra_b by (simp_all add: field_simps)
  have ra: "fmod (ra_rad * (180 / pi)) 360 = ra_rad * (180 / pi)"
    using v by (rule fmod_small)
  have xz: "(cos radius_rad)\<^sup>2 + (sin radius_rad * sin q_rad)\<^sup>2 \<le> 1"
  proof -
    have "(sin q_rad)\<^sup>2 \<le> 1" using abs_sin_le_one[of q_rad] by (simp add: abs_square_le_1)
    then have "(sin radius_rad)\<^sup>2 * (sin q_rad)\<^sup>2 \<le> (sin radius_rad)\<^sup>2 * 1"
      by (intro mult_left_mono) simp_all
    then have A: "(sin radius_rad * sin q_rad)\<^sup>2 \<le> (sin radius_rad)\<^sup>2"
      by (simp add: power_mult_distrib)
    have B: "(cos radius_rad)\<^sup>2 + (sin radius_rad)\<^sup>2 = 1" by (rule sin_cos_squared_add2)
    show ?thesis using A B by linarith
  qed
  have "\<bar>sin (tiledec * (pi / 180)) * cos radius_rad
         + cos (tiledec * (pi / 180)) * (sin radius_rad * sin q_rad)\<bar> \<le> 1"
    using xz by (intro unit_combination) simp_all
  then have z: "- 1 \<le> z4" "z4 \<le> 1" by (simp_all add: z4_def abs_le_iff)
  have ac: "0 \<le> arccos z4" "arccos z4 \<le> pi"
    using z by (simp_all add: arccos_lbound arccos_ubound)
  have d1: "- 90 \<le> (pi / 2 - arccos z4) * (180 / pi)"
  proof -
    have "- (pi / 2) \<le> pi / 2 - arccos z4" using ac by simp
    then have "- (pi / 2) * (180 / pi) \<le> (pi / 2 - arccos z4) * (180 / pi)"
      by (intro mult_right_mono) simp_all
    then show ?thesis by simp
  qed
  have d2: "(pi / 2 - arccos z4) * (180 / pi) \<le> 90"
  proof -
    have "pi / 2 - arccos z4 \<le> pi / 2" using ac by simp
    then have "(pi / 2 - arccos z4) * (180 / pi) \<le> (pi / 2) * (180 / pi)"
      by (intro mult_right_mono) simp_all
    then show ?thesis by simp
  qed
  have "ra = ra_rad * (180 / pi)" "dec = (pi / 2 - arccos z4) * (180 / pi)"
    using eq ret ra by simp_all
  then show ?thesis using v d1 d2 by simp
qed

subsection \<open>A focal-plane position one kilometre from the centre\<close>






end
